theory Spec2Isabelle
  imports Complex_Main "HOL-Library.Sublist"
begin

section \<open>Text: characters, stripping, searching\<close>

text \<open>
  Python strings are modelled as \<open>string\<close> (lists of 8-bit characters); a character
  stands for the code point of the same number, so the model covers text whose code
  points lie below 256. The character classes are those of Python's \<open>re\<close> module
  and of \<open>str.strip\<close> on that range.
\<close>

definition is_digit :: "char \<Rightarrow> bool" where
  "is_digit c = (c \<in> set ''0123456789'')"

definition is_space :: "char \<Rightarrow> bool" where
  "is_space c = (c \<in> set [CHR 0x09, CHR 0x0A, CHR 0x0B, CHR 0x0C, CHR 0x0D,
     CHR 0x1C, CHR 0x1D, CHR 0x1E, CHR 0x1F, CHR 0x20, CHR 0x85, CHR 0xA0])"

definition not_newline :: "char \<Rightarrow> bool" where
  "not_newline c = (c \<noteq> CHR 0x0A)"

definition is_digit_or_dot :: "char \<Rightarrow> bool" where
  "is_digit_or_dot c = (is_digit c \<or> c = CHR ''.'')"

definition is_KMG :: "char \<Rightarrow> bool" where
  "is_KMG c = (c \<in> set ''KMG'')"

text \<open>\<open>s.strip()\<close>: whitespace removed at both ends.\<close>

definition strip :: "string \<Rightarrow> string" where
  "strip s = rev (dropWhile is_space (rev (dropWhile is_space s)))"

text \<open>\<open>tok in s\<close> for strings: \<open>tok\<close> occurs in \<open>s\<close> as a contiguous piece.\<close>

fun contains :: "string \<Rightarrow> string \<Rightarrow> bool" where
  "contains tok [] = (tok = [])"
| "contains tok (c # cs) = (take (length tok) (c # cs) = tok \<or> contains tok cs)"

section \<open>Regular expressions as Python's \<open>re\<close> runs them\<close>

text \<open>
  The fragment of \<open>re\<close> syntax that the program's three patterns use: single
  characters and character classes, greedy and lazy repetition of a class
  (\<open>\d{1,3}\<close>, \<open>\d+\<close>, \<open>\s+\<close>, \<open>[KMG]?\<close>, \<open>.*?\<close>, \<open>.+\<close>), concatenation,
  alternation and numbered groups.
\<close>

datatype regex =
    Eps
  | Cls "char \<Rightarrow> bool"
  | Greedy "char \<Rightarrow> bool" nat "nat option"
  | Lazy "char \<Rightarrow> bool" nat "nat option"
  | Cat regex regex
  | Alt regex regex
  | Grp nat regex

type_synonym captures = "(nat \<times> string) list"

type_synonym mstate = "string \<times> captures"

text \<open>
  The numbers of characters a repetition of class \<open>P\<close> with bounds \<open>lo\<close>, \<open>hi\<close> may
  take from the front of \<open>s\<close>, in increasing order.
\<close>

definition rep_counts :: "(char \<Rightarrow> bool) \<Rightarrow> nat \<Rightarrow> nat option \<Rightarrow> string \<Rightarrow> nat list" where
  "rep_counts P lo hi s =
     (let avail = length (takeWhile P s);
          top = (case hi of None \<Rightarrow> avail | Some h \<Rightarrow> min h avail)
      in [lo ..< Suc top])"

text \<open>
  The backtracking matcher as a list of successes: every way the expression can match
  at the front of the remaining input, in the order in which the backtracking engine
  tries them (a greedy repetition takes the longest run first, a lazy one the shortest,
  an alternation its left branch first). A state is the input still to read and the
  groups closed so far. The engine's answer is the first success.
\<close>

primrec run :: "regex \<Rightarrow> mstate \<Rightarrow> mstate list" where
  "run Eps st = [st]"
| "run (Cls P) st =
     (case fst st of [] \<Rightarrow> [] | x # xs \<Rightarrow> if P x then [(xs, snd st)] else [])"
| "run (Greedy P lo hi) st =
     map (\<lambda>n. (drop n (fst st), snd st)) (rev (rep_counts P lo hi (fst st)))"
| "run (Lazy P lo hi) st =
     map (\<lambda>n. (drop n (fst st), snd st)) (rep_counts P lo hi (fst st))"
| "run (Cat a b) st = concat (map (run b) (run a st))"
| "run (Alt a b) st = run a st @ run b st"
| "run (Grp k r) st =
     map (\<lambda>st'. (fst st', (k, take (length (fst st) - length (fst st')) (fst st)) # snd st'))
       (run r st)"

text \<open>A literal string, character by character.\<close>

primrec lits :: "string \<Rightarrow> regex" where
  "lits [] = Eps"
| "lits (c # cs) = Cat (Cls ((=) c)) (lits cs)"

text \<open>
  \<open>re.search(r, s)\<close>: the first success at the leftmost start position that has one;
  the result is the groups of that match.
\<close>

fun search :: "regex \<Rightarrow> string \<Rightarrow> captures option" where
  "search r [] = (case run r ([], []) of [] \<Rightarrow> None | st # _ \<Rightarrow> Some (snd st))"
| "search r (c # cs) =
     (case run r (c # cs, []) of [] \<Rightarrow> search r cs | st # _ \<Rightarrow> Some (snd st))"

text \<open>
  \<open>m.group(k)\<close>. In each of the program's patterns every group lies on every path
  through the pattern, so a match always has a text for it; the empty text stands for a
  group that took no part, which does not arise.
\<close>

definition group :: "captures \<Rightarrow> nat \<Rightarrow> string" where
  "group c k = (case map_of c k of None \<Rightarrow> [] | Some t \<Rightarrow> t)"

section \<open>The progress line parser\<close>

text \<open>\<open>(\d{1,3}\.\d+|\d{1,3})\<close>\<close>

definition re_pct :: regex where
  "re_pct = Grp 1 (Alt
     (Cat (Greedy is_digit 1 (Some 3)) (Cat (Cls ((=) CHR ''.'')) (Greedy is_digit 1 None)))
     (Greedy is_digit 1 (Some 3)))"

text \<open>\<open>([\d\.]+[KMG]?iB/s)\<close>\<close>

definition re_rate :: regex where
  "re_rate = Grp 2 (Cat (Greedy is_digit_or_dot 1 None)
     (Cat (Greedy is_KMG 0 (Some 1)) (lits ''iB/s'')))"

text \<open>\<open>(\d{2}:\d{2})\<close>\<close>

definition re_eta :: regex where
  "re_eta = Grp 3 (Cat (Greedy is_digit 2 (Some 2))
     (Cat (Cls ((=) CHR '':'')) (Greedy is_digit 2 (Some 2))))"

text \<open>\<open>(\d{1,3}\.\d+|\d{1,3})%.*?at\s+([\d\.]+[KMG]?iB/s)\<close>\<close>

definition re_reduced :: regex where
  "re_reduced = Cat re_pct (Cat (Cls ((=) CHR ''%'')) (Cat (Lazy not_newline 0 None)
     (Cat (lits ''at'') (Cat (Greedy is_space 1 None) re_rate))))"

text \<open>\<open>(\d{1,3}\.\d+|\d{1,3})%.*?at\s+([\d\.]+[KMG]?iB/s).*?ETA\s+(\d{2}:\d{2})\<close>\<close>

definition re_full :: regex where
  "re_full = Cat re_reduced (Cat (Lazy not_newline 0 None)
     (Cat (lits ''ETA'') (Cat (Greedy is_space 1 None) re_eta)))"

text \<open>
  The number a text of digits with an optional fraction part denotes.
\<close>

definition digit_val :: "char \<Rightarrow> int" where
  "digit_val c = of_char c - 48"

definition dec_val :: "string \<Rightarrow> int" where
  "dec_val ds = foldl (\<lambda>a c. 10 * a + digit_val c) 0 ds"

definition dec_value :: "string \<Rightarrow> rat" where
  "dec_value t =
     (let ip = takeWhile (\<lambda>c. c \<noteq> CHR ''.'') t;
          fp = drop (Suc (length ip)) t
      in of_int (dec_val (ip @ fp)) / 10 ^ length fp)"

text \<open>
  \<open>float(t)\<close> gives the double nearest to that number, a tie going to the even
  significand. A double is an integer below \<open>2 ^ 53\<close> times a power of two, and the
  smallest power is \<open>2 ^ 1074\<close> in the denominator. For a positive quotient \<open>a / b\<close>,
  \<open>binary_scale a b k\<close> finds the number of binary places that puts it at \<open>2 ^ 52\<close>
  or above, 1074 at most; \<open>round_div\<close> is the quotient rounded to the nearest whole
  number, a tie going to the even one. The numbers the parser converts have at most
  three digits before the point, so they lie below 1000: the significand needs no
  negative number of binary places and the conversion never overflows. The result is
  given as the rational number the double is.
\<close>

function binary_scale :: "int \<Rightarrow> int \<Rightarrow> nat \<Rightarrow> nat" where
  "binary_scale a b k =
     (if 1074 \<le> k \<or> 2 ^ 52 * b \<le> a * 2 ^ k then k else binary_scale a b (Suc k))"
  by pat_completeness auto
termination
proof (relation "measure (\<lambda>(a, b, k). 1074 - k)")
  show "wf (measure (\<lambda>(a :: int, b :: int, k). 1074 - k))"
    by (rule wf_measure)
next
  fix a b :: int and k :: nat
  assume "\<not> (1074 \<le> k \<or> 2 ^ 52 * b \<le> a * 2 ^ k)"
  then have "k < 1074"
    by (simp only: de_Morgan_disj not_le)
  then show "((a, b, Suc k), (a, b, k)) \<in> measure (\<lambda>(a, b, k). 1074 - k)"
    by simp
qed

definition round_div :: "int \<Rightarrow> int \<Rightarrow> int" where
  "round_div a b =
     (let f = a div b; r = a mod b
      in if 2 * r < b then f
         else if b < 2 * r then f + 1
         else if even f then f else f + 1)"

definition to_double :: "int \<Rightarrow> int \<Rightarrow> rat" where
  "to_double a b =
     (if a = 0 then 0
      else (let k = binary_scale a b 0 in of_int (round_div (a * 2 ^ k) b) / 2 ^ k))"

definition py_float :: "string \<Rightarrow> rat" where
  "py_float t =
     (let ip = takeWhile (\<lambda>c. c \<noteq> CHR ''.'') t;
          fp = drop (Suc (length ip)) t
      in to_double (dec_val (ip @ fp)) (10 ^ length fp))"

definition parse_progress_line :: "string \<Rightarrow> (rat \<times> string \<times> string option) option" where
  "parse_progress_line line =
     (case search re_full line of
        Some m \<Rightarrow> Some (py_float (group m 1), group m 2, Some (group m 3))
      | None \<Rightarrow>
         (case search re_reduced line of
            Some m2 \<Rightarrow> Some (py_float (group m2 1), group m2 2, None)
          | None \<Rightarrow> None))"

section \<open>The command builder\<close>

definition QUALITY_MAP :: "(string \<times> string) list" where
  "QUALITY_MAP =
     [(''144p (Low)'', ''144''),
      (''240p'', ''240''),
      (''360p'', ''360''),
      (''480p'', ''480''),
      (''720p'', ''720''),
      (''1080p'', ''1080''),
      (''1440p'', ''1440''),
      (''2160p (4K - High)'', ''2160'')]"

record speed_profile =
  concurrent :: string
  chunk :: string

definition SPEED_MAP :: "(string \<times> speed_profile) list" where
  "SPEED_MAP =
     [(''Slow'', \<lparr>concurrent = ''1'', chunk = ''1M''\<rparr>),
      (''Mid'', \<lparr>concurrent = ''10'', chunk = ''1M''\<rparr>),
      (''High'', \<lparr>concurrent = ''20'', chunk = ''5M''\<rparr>),
      (''Turbo'', \<lparr>concurrent = ''40'', chunk = ''10M''\<rparr>),
      (''Superfast'', \<lparr>concurrent = ''80'', chunk = ''20M''\<rparr>)]"

text \<open>\<open>d.get(k, default)\<close> on a dictionary given as its list of items.\<close>

definition dict_get :: "('k \<times> 'v) list \<Rightarrow> 'k \<Rightarrow> 'v \<Rightarrow> 'v" where
  "dict_get d k dflt = (case map_of d k of None \<Rightarrow> dflt | Some v \<Rightarrow> v)"

text \<open>
  The file system, as far as the program looks at it: a tree of regular files (with
  their bytes) and directories, keyed by the list of names from the root. Symbolic links
  are not modelled.
\<close>

datatype node = File string | Dir

type_synonym filesystem = "string list \<Rightarrow> node option"

text \<open>\<open>s.split(sep)\<close> for a one-character separator.\<close>

primrec split_sep :: "char \<Rightarrow> string \<Rightarrow> string list" where
  "split_sep sep [] = [[]]"
| "split_sep sep (c # cs) =
     (if c = sep then [] # split_sep sep cs
      else (case split_sep sep cs of [] \<Rightarrow> [[c]] | w # ws \<Rightarrow> (c # w) # ws))"

definition is_dir :: "filesystem \<Rightarrow> string list \<Rightarrow> bool" where
  "is_dir fs p = (p = [] \<or> fs p = Some Dir)"

text \<open>
  Path resolution as the operating system does it, name by name from the root: every
  name is looked up in a directory; an empty name and \<open>.\<close> stay, \<open>..\<close> goes to the
  parent. \<open>None\<close> when a name is missing or a name is looked up in something that is
  not a directory.
\<close>

fun walk :: "filesystem \<Rightarrow> string list \<Rightarrow> string list \<Rightarrow> string list option" where
  "walk fs cur [] = Some cur"
| "walk fs cur (c # cs) =
     (if \<not> is_dir fs cur then None
      else if c = [] \<or> c = ''.'' then walk fs cur cs
      else if c = ''..'' then walk fs (butlast cur) cs
      else (case fs (cur @ [c]) of None \<Rightarrow> None | Some n \<Rightarrow> walk fs (cur @ [c]) cs))"

text \<open>Only absolute paths reach the file system: every path is joined to the working directory.\<close>

definition resolve :: "filesystem \<Rightarrow> string \<Rightarrow> string list option" where
  "resolve fs path =
     (case path of [] \<Rightarrow> None
      | c # cs \<Rightarrow> if c = CHR ''/'' then walk fs [] (split_sep CHR ''/'' cs) else None)"

text \<open>\<open>os.path.exists\<close>\<close>

definition path_exists :: "filesystem \<Rightarrow> string \<Rightarrow> bool" where
  "path_exists fs path = (resolve fs path \<noteq> None)"

text \<open>
  The bytes of the regular file at a path; \<open>None\<close> when the path does not exist or is
  not a regular file (where \<open>os.path.isfile\<close> is false).
\<close>

definition file_bytes :: "filesystem \<Rightarrow> string \<Rightarrow> string option" where
  "file_bytes fs path =
     (case resolve fs path of None \<Rightarrow> None
      | Some p \<Rightarrow> (case fs p of Some (File b) \<Rightarrow> Some b | _ \<Rightarrow> None))"

text \<open>\<open>os.path.join(a, b)\<close> on POSIX.\<close>

definition path_join :: "string \<Rightarrow> string \<Rightarrow> string" where
  "path_join a b =
     (if take 1 b = ''/'' then b
      else if a = [] \<or> last a = CHR ''/'' then a @ b
      else a @ ''/'' @ b)"

text \<open>\<open>os.path.basename(p)\<close> on POSIX: what follows the last slash.\<close>

definition basename :: "string \<Rightarrow> string" where
  "basename p = rev (takeWhile (\<lambda>c. c \<noteq> CHR ''/'') (rev p))"

text \<open>The working directory the service was started in, and the files as they are.\<close>

record os_state =
  cwd :: string
  files :: filesystem

definition WEB_DOWNLOADER_DIR :: "os_state \<Rightarrow> string" where
  "WEB_DOWNLOADER_DIR os = path_join (cwd os) ''web_downloader''"

text \<open>
  Exceptions are values. \<open>KeyError\<close> is what indexing a dictionary with a missing
  key raises.
\<close>

datatype py_error = KeyError string

definition build_web_cmd ::
  "os_state \<Rightarrow> string \<Rightarrow> string \<Rightarrow> string \<Rightarrow> string \<Rightarrow> string \<Rightarrow> py_error + string list" where
  "build_web_cmd os url quality fmt cookies speed =
     (let h = dict_get QUALITY_MAP quality ''480'' in
      case map_of SPEED_MAP ''Turbo'' of
        None \<Rightarrow> Inl (KeyError ''Turbo'')
      | Some turbo \<Rightarrow>
         (let s = dict_get SPEED_MAP speed turbo;
              base = (if fmt = ''MP4 - Video''
                      then [''yt-dlp'', ''-f'', ''best[height<='' @ h @ ''][ext=mp4]'']
                      else [''yt-dlp'', ''-f'', ''bestaudio[ext=m4a]'']);
              cookie = (if cookies = ''cookies.txt''
                           \<and> path_exists (files os) (path_join (cwd os) ''cookies.txt'')
                        then [''--cookies'', ''cookies.txt''] else []);
              fast = [''--concurrent-fragments'', concurrent s,
                      ''--http-chunk-size'', chunk s,
                      ''--retries'', ''3'',
                      ''--fragment-retries'', ''3'',
                      ''--newline''];
              out_tmpl = path_join (WEB_DOWNLOADER_DIR os) ''%(title)s.%(ext)s''
          in Inr (base @ cookie @ [''--no-playlist''] @ fast @ [''-o'', out_tmpl, strip url])))"

section \<open>Jobs and the job runner\<close>

record job_status =
  pct :: rat
  speed :: string
  eta :: string
  status_text :: string

record job =
  status :: job_status
  filename :: "string option"
  job_done :: bool
  error :: "string option"

text \<open>The record the runner stores first.\<close>

definition initial_job :: job where
  "initial_job =
     \<lparr>status = \<lparr>pct = 0, speed = ''--'', eta = ''--'', status_text = ''Starting...''\<rparr>,
      filename = None, job_done = False, error = None\<rparr>"

text \<open>\<open>Destination:\s(.+)\<close>\<close>

definition re_destination :: regex where
  "re_destination = Cat (lits ''Destination:'') (Cat (Cls is_space)
     (Grp 1 (Greedy not_newline 1 None)))"

text \<open>\<open>x or "--"\<close> for an optional string: \<open>None\<close> and the empty string are falsy.\<close>

definition or_dashes :: "string option \<Rightarrow> string" where
  "or_dashes x = (case x of None \<Rightarrow> ''--'' | Some t \<Rightarrow> if t = [] then ''--'' else t)"

text \<open>The body of the loop over the lines of the process's output.\<close>

definition process_line :: "job \<Rightarrow> string \<Rightarrow> job" where
  "process_line j raw =
     (let line = strip raw;
          j1 = j\<lparr>status := (status j)\<lparr>status_text := take 160 line\<rparr>\<rparr>;
          j2 = (case parse_progress_line line of
                  None \<Rightarrow> j1
                | Some (p, sp, e) \<Rightarrow>
                    j1\<lparr>status := (status j1)\<lparr>pct := p, speed := sp, eta := or_dashes e\<rparr>\<rparr>)
      in if contains ''Destination:'' line
         then (case search re_destination line of
                 None \<Rightarrow> j2
               | Some m \<Rightarrow> j2\<lparr>filename := Some (basename (group m 1))\<rparr>)
         else j2)"

text \<open>
  What starting the external process and reading it to the end gives: the process
  could not be started (\<open>Popen\<close> raises), or it ran, wrote its lines, and either reading
  its output raised after those lines or it ended with an exit code.
\<close>

datatype process_result =
    Spawn_failed string
  | Ran "string list" "string option" int

text \<open>
  What the runner's directory scan sees. Other threads and processes change the directory
  while the scan runs, so the calls are answered one by one: \<open>os.listdir\<close> and
  \<open>os.path.getmtime\<close> return or raise, \<open>os.path.isfile\<close> returns.
\<close>

record scan_env =
  listdir :: "string \<Rightarrow> string + string list"
  isfile :: "string \<Rightarrow> bool"
  getmtime :: "string \<Rightarrow> string + rat"

text \<open>The keys of a sort, computed in order; the first call that raises ends it.\<close>

fun sort_keys :: "('a \<Rightarrow> string + rat) \<Rightarrow> 'a list \<Rightarrow> string + rat list" where
  "sort_keys f [] = Inr []"
| "sort_keys f (x # xs) =
     (case f x of Inl e \<Rightarrow> Inl e
      | Inr k \<Rightarrow> (case sort_keys f xs of Inl e \<Rightarrow> Inl e | Inr ks \<Rightarrow> Inr (k # ks)))"

text \<open>
  The regular files of the directory, newest first: \<open>sorted(..., key=getmtime,
  reverse=True)\<close> is stable, so files of equal time keep the order of the listing.
\<close>

definition newest_first :: "scan_env \<Rightarrow> string \<Rightarrow> string + string list" where
  "newest_first sc dir =
     (case listdir sc dir of Inl e \<Rightarrow> Inl e
      | Inr names \<Rightarrow>
         (let fs = filter (\<lambda>f. isfile sc (path_join dir f)) names in
          case sort_keys (\<lambda>f. getmtime sc (path_join dir f)) fs of Inl e \<Rightarrow> Inl e
          | Inr ks \<Rightarrow> Inr (map fst (sort_key (\<lambda>fk. - snd fk) (zip fs ks)))))"

text \<open>\<open>str(n)\<close> for an integer.\<close>

fun str_nat :: "nat \<Rightarrow> string" where
  "str_nat n =
     (if n < 10 then [char_of (48 + n)]
      else str_nat (n div 10) @ [char_of (48 + n mod 10)])"

definition str_int :: "int \<Rightarrow> string" where
  "str_int i = (if i < 0 then ''-'' @ str_nat (nat (- i)) else str_nat (nat i))"

text \<open>\<open>not x\<close> for an optional string.\<close>

definition falsy :: "string option \<Rightarrow> bool" where
  "falsy x = (case x of None \<Rightarrow> True | Some t \<Rightarrow> t = [])"

text \<open>
  The runner after the loop, on exit code zero: the job is marked done, then the newest
  file stands in for a missing file name. The scan runs inside the \<open>try\<close>, so a call
  of it that raises is caught by the handler, which stores the message.
\<close>

definition finish_ok :: "scan_env \<Rightarrow> string \<Rightarrow> job \<Rightarrow> job" where
  "finish_ok sc dir j =
     (let j1 = j\<lparr>job_done := True\<rparr> in
      if falsy (filename j1)
      then (case newest_first sc dir of
              Inl e \<Rightarrow> j1\<lparr>error := Some e\<rparr>
            | Inr fs \<Rightarrow> (case fs of [] \<Rightarrow> j1 | f # rest \<Rightarrow> j1\<lparr>filename := Some f\<rparr>))
      else j1)"

text \<open>The job record when the runner returns.\<close>

definition run_job :: "scan_env \<Rightarrow> string \<Rightarrow> process_result \<Rightarrow> job" where
  "run_job sc dir p =
     (case p of
        Spawn_failed e \<Rightarrow> initial_job\<lparr>error := Some e\<rparr>
      | Ran raws read_error ret \<Rightarrow>
         (let j = foldl process_line initial_job raws in
          case read_error of
            Some e \<Rightarrow> j\<lparr>error := Some e\<rparr>
          | None \<Rightarrow>
             if ret = 0 then finish_ok sc dir j
             else j\<lparr>error := Some (''yt-dlp exited '' @ str_int ret)\<rparr>))"

section \<open>The service\<close>

text \<open>
  The shared state: the job registry, the runner threads that were started and have not
  run their first statement yet, and the deletions that were scheduled, each with its
  delay and its path.
\<close>

record app_state =
  web_jobs :: "string \<Rightarrow> job option"
  started :: "(string \<times> string list) list"
  deletions :: "(nat \<times> string) list"





datatype status_response =
    Status_ok job_status bool "string option" "string option"
  | Status_error string nat

text \<open>\<open>GET /status\<close>; \<open>job_param\<close> is \<open>request.args.get("job")\<close>.\<close>

definition web_status :: "app_state \<Rightarrow> string option \<Rightarrow> status_response" where
  "web_status st job_param =
     (case job_param of
        None \<Rightarrow> Status_error ''Invalid job'' 400
      | Some job_id \<Rightarrow>
         if job_id = [] then Status_error ''Invalid job'' 400
         else (case web_jobs st job_id of
                 None \<Rightarrow> Status_error ''Invalid job'' 400
               | Some j \<Rightarrow> Status_ok (status j) (job_done j) (filename j) (error j)))"

subsection \<open>Delivery\<close>

text \<open>
  Flask's \<open>send_from_directory\<close> is a library function, outside the repository. It is
  modelled after its documented behaviour: the file name is normalised
  (\<open>posixpath.normpath\<close>) and joined to the directory by \<open>werkzeug\<close>'s \<open>safe_join\<close>,
  which refuses a name that is absolute or leads out of the directory; the answer is
  \<open>NotFound\<close> for a refused name and for a path that is not a regular file, and the
  file's bytes otherwise.
\<close>

primrec join_with :: "string \<Rightarrow> string list \<Rightarrow> string" where
  "join_with sep [] = []"
| "join_with sep (w # ws) = (if ws = [] then w else w @ sep @ join_with sep ws)"

definition norm_step :: "nat \<Rightarrow> string list \<Rightarrow> string \<Rightarrow> string list" where
  "norm_step initial_slashes new_comps part =
     (if part = [] \<or> part = ''.'' then new_comps
      else if part \<noteq> ''..'' \<or> (initial_slashes = 0 \<and> new_comps = [])
                \<or> (new_comps \<noteq> [] \<and> last new_comps = ''..'')
           then new_comps @ [part]
      else if new_comps \<noteq> [] then butlast new_comps
      else new_comps)"

definition normpath :: "string \<Rightarrow> string" where
  "normpath path =
     (if path = [] then ''.''
      else
        (let initial_slashes =
               (if take 1 path = ''/''
                then (if take 2 path = ''//'' \<and> take 3 path \<noteq> ''///'' then 2 else 1)
                else (0::nat));
             comps = foldl (norm_step initial_slashes) [] (split_sep CHR ''/'' path);
             p = replicate initial_slashes CHR ''/'' @ join_with ''/'' comps
         in if p = [] then ''.'' else p))"

definition safe_join :: "string \<Rightarrow> string \<Rightarrow> string option" where
  "safe_join directory name =
     (let d = (if directory = [] then ''.'' else directory);
          n = (if name \<noteq> [] then normpath name else name)
      in if take 1 n = ''/'' \<or> n = ''..'' \<or> take 3 n = ''../'' then None
         else Some (path_join d n))"

datatype fetch_response =
    File_not_found
  | NotFound
  | Attachment string

definition send_from_directory :: "filesystem \<Rightarrow> string \<Rightarrow> string \<Rightarrow> fetch_response" where
  "send_from_directory fs directory name =
     (case safe_join directory name of
        None \<Rightarrow> NotFound
      | Some path \<Rightarrow>
         (case file_bytes fs path of None \<Rightarrow> NotFound | Some b \<Rightarrow> Attachment b))"

text \<open>
  \<open>GET /fetch/<path:filename>\<close>: \<open>File_not_found\<close> is the handler's own answer
  \<open>("File not found", 404)\<close>. The deletion thread is started before the file is sent.
\<close>

definition web_fetch :: "os_state \<Rightarrow> string \<Rightarrow> app_state \<Rightarrow> fetch_response \<times> app_state" where
  "web_fetch os name st =
     (let full_path = path_join (WEB_DOWNLOADER_DIR os) name in
      if \<not> path_exists (files os) full_path then (File_not_found, st)
      else (send_from_directory (files os) (WEB_DOWNLOADER_DIR os) name,
            st\<lparr>deletions := deletions st @ [(10, full_path)]\<rparr>))"

text \<open>
  \<open>os.remove\<close> takes a regular file away and raises on a path that does not exist or
  is a directory.
\<close>

definition os_remove :: "filesystem \<Rightarrow> string \<Rightarrow> string + filesystem" where
  "os_remove fs path =
     (case resolve fs path of
        None \<Rightarrow> Inl ''[Errno 2] No such file or directory''
      | Some p \<Rightarrow>
         (case fs p of
            Some (File b) \<Rightarrow> Inr (fs(p := None))
          | _ \<Rightarrow> Inl ''[Errno 21] Is a directory''))"

text \<open>
  \<open>delayed_delete\<close> once its sleep is over: the file system afterwards. The handler
  \<open>except Exception: pass\<close> swallows what \<open>os.remove\<close> raises.
\<close>

definition delayed_delete :: "filesystem \<Rightarrow> string \<Rightarrow> filesystem" where
  "delayed_delete fs path = (case os_remove fs path of Inl e \<Rightarrow> fs | Inr fs' \<Rightarrow> fs')"

text \<open>A path lies in a directory when it resolves to something below it.\<close>

definition inside :: "filesystem \<Rightarrow> string \<Rightarrow> string \<Rightarrow> bool" where
  "inside fs directory path =
     (case (resolve fs directory, resolve fs path) of
        (Some d, Some p) \<Rightarrow> length d < length p \<and> take (length d) p = d
      | _ \<Rightarrow> False)"

text \<open>A file name proper: one name, not a path, and none of the special names.\<close>

definition plain_name :: "string \<Rightarrow> bool" where
  "plain_name name =
     (name \<noteq> [] \<and> name \<noteq> ''.'' \<and> name \<noteq> ''..'' \<and> CHR ''/'' \<notin> set name)"

section \<open>What the patterns mean\<close>

text \<open>
  The meaning of an expression, apart from any engine: the texts it matches, each with
  the groups it gives (the group closed last comes first). Greedy and lazy repetition
  match the same texts; they differ in which match an engine finds first.
\<close>

definition in_bounds :: "nat \<Rightarrow> nat option \<Rightarrow> nat \<Rightarrow> bool" where
  "in_bounds lo hi n = (lo \<le> n \<and> (case hi of None \<Rightarrow> True | Some h \<Rightarrow> n \<le> h))"

primrec lang :: "regex \<Rightarrow> (string \<times> captures) set" where
  "lang Eps = {([], [])}"
| "lang (Cls P) = {([x], []) | x. P x}"
| "lang (Greedy P lo hi) = {(t, []) | t. list_all P t \<and> in_bounds lo hi (length t)}"
| "lang (Lazy P lo hi) = {(t, []) | t. list_all P t \<and> in_bounds lo hi (length t)}"
| "lang (Cat a b) = {(t1 @ t2, d2 @ d1) | t1 t2 d1 d2. (t1, d1) \<in> lang a \<and> (t2, d2) \<in> lang b}"
| "lang (Alt a b) = lang a \<union> lang b"
| "lang (Grp k r) = {(t, (k, t) # d) | t d. (t, d) \<in> lang r}"

text \<open>
  The three kinds of text the progress patterns look for: a percentage (one to three
  digits, with an optional fraction), a rate (a magnitude of digits and dots, an optional
  binary prefix \<open>K\<close>, \<open>M\<close> or \<open>G\<close>, and the unit \<open>iB/s\<close>) and a remaining time \<open>MM:SS\<close>.
\<close>

definition digits :: "nat \<Rightarrow> nat option \<Rightarrow> string \<Rightarrow> bool" where
  "digits lo hi t = (list_all is_digit t \<and> in_bounds lo hi (length t))"

definition pct_text :: "string \<Rightarrow> bool" where
  "pct_text t =
     ((\<exists>ip fp. t = ip @ ''.'' @ fp \<and> digits 1 (Some 3) ip \<and> digits 1 None fp)
      \<or> digits 1 (Some 3) t)"

definition rate_text :: "string \<Rightarrow> bool" where
  "rate_text t =
     (\<exists>m u. t = m @ u @ ''iB/s'' \<and> m \<noteq> [] \<and> list_all is_digit_or_dot m
        \<and> list_all is_KMG u \<and> length u \<le> 1)"

definition eta_text :: "string \<Rightarrow> bool" where
  "eta_text t = (\<exists>mm ss. t = mm @ '':'' @ ss \<and> digits 2 (Some 2) mm \<and> digits 2 (Some 2) ss)"

definition spaces :: "string \<Rightarrow> bool" where
  "spaces ws = (ws \<noteq> [] \<and> list_all is_space ws)"

text \<open>
  A line matches the reduced pattern with percentage \<open>num\<close> and rate \<open>rate\<close>; a line
  matches the full pattern with these and the remaining time \<open>eta\<close>. The match may
  stand anywhere in the line; what lies between its parts must not hold a line break.
\<close>

definition reduced_match :: "string \<Rightarrow> string \<Rightarrow> string \<Rightarrow> bool" where
  "reduced_match line num rate =
     (\<exists>pre mid ws post.
        line = pre @ num @ ''%'' @ mid @ ''at'' @ ws @ rate @ post
        \<and> pct_text num \<and> list_all not_newline mid \<and> spaces ws \<and> rate_text rate)"

definition full_match :: "string \<Rightarrow> string \<Rightarrow> string \<Rightarrow> string \<Rightarrow> bool" where
  "full_match line num rate eta_t =
     (\<exists>pre mid ws mid2 ws2 post.
        line = pre @ num @ ''%'' @ mid @ ''at'' @ ws @ rate @ mid2 @ ''ETA'' @ ws2 @ eta_t @ post
        \<and> pct_text num \<and> list_all not_newline mid \<and> spaces ws \<and> rate_text rate
        \<and> list_all not_newline mid2 \<and> spaces ws2 \<and> eta_text eta_t)"

subsection \<open>A small deployment, for the examples\<close>

text \<open>
  The service runs in \<open>/srv\<close>, next to its own source file; the download directory
  holds one finished download.
\<close>

definition example_os :: os_state where
  "example_os =
     \<lparr>cwd = ''/srv'',
      files = [[''srv''] \<mapsto> Dir,
               [''srv'', ''app.py''] \<mapsto> File ''import os'',
               [''srv'', ''web_downloader''] \<mapsto> Dir,
               [''srv'', ''web_downloader'', ''a.mp4''] \<mapsto> File ''video bytes'']\<rparr>"

definition empty_state :: app_state where
  "empty_state = \<lparr>web_jobs = Map.empty, started = [], deletions = []\<rparr>"

text \<open>
  Two scans that go wrong: the directory cannot be listed; and a file that was listed is
  gone (renamed or deleted by another thread) when its time is asked for.
\<close>

definition scan_unlistable :: scan_env where
  "scan_unlistable =
     \<lparr>listdir = (\<lambda>d. Inl ''[Errno 13] Permission denied''),
      isfile = (\<lambda>p. False),
      getmtime = (\<lambda>p. Inl ''[Errno 2] No such file or directory'')\<rparr>"

definition scan_vanishing :: scan_env where
  "scan_vanishing =
     \<lparr>listdir = (\<lambda>d. Inr [''a.mp4'']),
      isfile = (\<lambda>p. True),
      getmtime = (\<lambda>p. Inl ''[Errno 2] No such file or directory'')\<rparr>"

section \<open>Status queries\<close>

text \<open>
  Claim C10. A status request whose \<open>job\<close> parameter is absent, empty, or not a key
  of the registry gets one and the same answer, the client error \<open>Invalid job\<close> with
  code 400, and never a job snapshot.
\<close>

theorem web_status_invalid_job:
  assumes "job_param = None \<or> job_param = Some [] \<or> (\<exists>j. job_param = Some j \<and> web_jobs st j = None)"
  shows "web_status st job_param = Status_error ''Invalid job'' 400
       \<and> (\<forall>s d f e. web_status st job_param \<noteq> Status_ok s d f e)"
  using assms by (auto simp: web_status_def split: option.splits)

theorem web_status_invalid_job_witness:
  "web_status \<lparr>web_jobs = Map.empty, started = [], deletions = []\<rparr> None = Status_error ''Invalid job'' 400
   \<and> web_status \<lparr>web_jobs = Map.empty(''0123456789ab'' \<mapsto> initial_job), started = [], deletions = []\<rparr> (Some []) = Status_error ''Invalid job'' 400
   \<and> web_status \<lparr>web_jobs = Map.empty(''0123456789ab'' \<mapsto> initial_job), started = [], deletions = []\<rparr> (Some ''ffffffffffff'') = Status_error ''Invalid job'' 400"
  using web_status_invalid_job [of None "\<lparr>web_jobs = Map.empty, started = [], deletions = []\<rparr>"]
    web_status_invalid_job [of "Some []" "\<lparr>web_jobs = Map.empty(''0123456789ab'' \<mapsto> initial_job), started = [], deletions = []\<rparr>"]
    web_status_invalid_job [of "Some ''ffffffffffff''" "\<lparr>web_jobs = Map.empty(''0123456789ab'' \<mapsto> initial_job), started = [], deletions = []\<rparr>"]
  by simp

section \<open>The command builder: totality, determinism, defaults\<close>

lemma map_of_SPEED_MAP_Turbo: "map_of SPEED_MAP ''Turbo'' = Some \<lparr>concurrent = ''40'', chunk = ''10M''\<rparr>"
  by (simp add: SPEED_MAP_def)

lemma build_web_cmd_eq:
  "build_web_cmd os url quality fmt cookies sp =
     Inr ((if fmt = ''MP4 - Video''
           then [''yt-dlp'', ''-f'', ''best[height<='' @ dict_get QUALITY_MAP quality ''480'' @ ''][ext=mp4]'']
           else [''yt-dlp'', ''-f'', ''bestaudio[ext=m4a]''])
        @ (if cookies = ''cookies.txt'' \<and> path_exists (files os) (path_join (cwd os) ''cookies.txt'')
           then [''--cookies'', ''cookies.txt''] else [])
        @ [''--no-playlist'']
        @ [''--concurrent-fragments'',
           concurrent (dict_get SPEED_MAP sp \<lparr>concurrent = ''40'', chunk = ''10M''\<rparr>),
           ''--http-chunk-size'',
           chunk (dict_get SPEED_MAP sp \<lparr>concurrent = ''40'', chunk = ''10M''\<rparr>),
           ''--retries'', ''3'', ''--fragment-retries'', ''3'', ''--newline'']
        @ [''-o'', path_join (path_join (cwd os) ''web_downloader'') ''%(title)s.%(ext)s'', strip url])"
  unfolding build_web_cmd_def map_of_SPEED_MAP_Turbo WEB_DOWNLOADER_DIR_def Let_def
  by simp

text \<open>
  Claim C5. The command builder never fails; its result depends on the environment only
  through the working directory (which fixes the output directory) and the one check
  whether \<open>cookies.txt\<close> exists; a quality label outside \<open>QUALITY_MAP\<close> gives
  what \<open>480p\<close> gives, the height ceiling 480; a speed label outside \<open>SPEED_MAP\<close>
  gives what \<open>Turbo\<close> gives, 40 concurrent fragments and a chunk size of 10M.
\<close>

theorem build_web_cmd_deterministic_defaults:
  "(\<exists>cmd. build_web_cmd os url quality fmt cookies sp = Inr cmd)
   \<and> (cwd os' = cwd os \<and> path_exists (files os') (path_join (cwd os') ''cookies.txt'')
          = path_exists (files os) (path_join (cwd os) ''cookies.txt'')
        \<longrightarrow> build_web_cmd os' url quality fmt cookies sp = build_web_cmd os url quality fmt cookies sp)
   \<and> (map_of QUALITY_MAP quality = None \<longrightarrow>
        build_web_cmd os url quality fmt cookies sp = build_web_cmd os url ''480p'' fmt cookies sp
        \<and> (\<exists>rest. build_web_cmd os url quality ''MP4 - Video'' cookies sp
              = Inr ([''yt-dlp'', ''-f'', ''best[height<=480][ext=mp4]''] @ rest)))
   \<and> (map_of SPEED_MAP sp = None \<longrightarrow>
        build_web_cmd os url quality fmt cookies sp = build_web_cmd os url quality fmt cookies ''Turbo''
        \<and> (\<exists>pre post. build_web_cmd os url quality fmt cookies sp
              = Inr (pre @ [''--concurrent-fragments'', ''40'', ''--http-chunk-size'', ''10M''] @ post)))"
proof (intro conjI impI)
  show "\<exists>cmd. build_web_cmd os url quality fmt cookies sp = Inr cmd"
    unfolding build_web_cmd_eq by blast
next
  assume "cwd os' = cwd os \<and> path_exists (files os') (path_join (cwd os') ''cookies.txt'')
          = path_exists (files os) (path_join (cwd os) ''cookies.txt'')"
  then show "build_web_cmd os' url quality fmt cookies sp = build_web_cmd os url quality fmt cookies sp"
    unfolding build_web_cmd_eq by auto
next
  assume q: "map_of QUALITY_MAP quality = None"
  have q480: "dict_get QUALITY_MAP ''480p'' ''480'' = ''480''"
    by (simp add: QUALITY_MAP_def dict_get_def)
  have qd: "dict_get QUALITY_MAP quality ''480'' = ''480''"
    by (simp add: dict_get_def q)
  show "build_web_cmd os url quality fmt cookies sp = build_web_cmd os url ''480p'' fmt cookies sp"
    unfolding build_web_cmd_eq q480 qd by (rule refl)
  show "\<exists>rest. build_web_cmd os url quality ''MP4 - Video'' cookies sp
              = Inr ([''yt-dlp'', ''-f'', ''best[height<=480][ext=mp4]''] @ rest)"
    unfolding build_web_cmd_eq qd by simp
next
  assume s: "map_of SPEED_MAP sp = None"
  have sd: "dict_get SPEED_MAP sp \<lparr>concurrent = ''40'', chunk = ''10M''\<rparr> = \<lparr>concurrent = ''40'', chunk = ''10M''\<rparr>"
    by (simp add: dict_get_def s)
  have st: "dict_get SPEED_MAP ''Turbo'' \<lparr>concurrent = ''40'', chunk = ''10M''\<rparr> = \<lparr>concurrent = ''40'', chunk = ''10M''\<rparr>"
    by (simp add: dict_get_def map_of_SPEED_MAP_Turbo)
  show "build_web_cmd os url quality fmt cookies sp = build_web_cmd os url quality fmt cookies ''Turbo''"
    unfolding build_web_cmd_eq sd st by (rule refl)
  show "\<exists>pre post. build_web_cmd os url quality fmt cookies sp
              = Inr (pre @ [''--concurrent-fragments'', ''40'', ''--http-chunk-size'', ''10M''] @ post)"
    unfolding build_web_cmd_eq sd
    by (intro exI [of _ "_ @ _ @ [''--no-playlist'']"] exI [of _ "[''--retries'', ''3'', ''--fragment-retries'', ''3'', ''--newline''] @ _"]) simp
qed

theorem build_web_cmd_deterministic_defaults_witness:
  "build_web_cmd \<lparr>cwd = ''/srv'', files = Map.empty\<rparr> ''https://example.org/v'' ''999p'' ''MP4 - Video'' ''none'' ''Warp''
     = Inr [''yt-dlp'', ''-f'', ''best[height<=480][ext=mp4]'', ''--no-playlist'',
            ''--concurrent-fragments'', ''40'', ''--http-chunk-size'', ''10M'',
            ''--retries'', ''3'', ''--fragment-retries'', ''3'', ''--newline'',
            ''-o'', ''/srv/web_downloader/%(title)s.%(ext)s'', ''https://example.org/v'']
   \<and> map_of QUALITY_MAP ''999p'' = None \<and> map_of SPEED_MAP ''Warp'' = None
   \<and> build_web_cmd \<lparr>cwd = ''/srv'', files = Map.empty\<rparr> ''https://example.org/v'' ''999p'' ''MP4 - Video'' ''none'' ''Warp''
     = build_web_cmd \<lparr>cwd = ''/srv'', files = Map.empty\<rparr> ''https://example.org/v'' ''480p'' ''MP4 - Video'' ''none'' ''Turbo''
   \<and> build_web_cmd \<lparr>cwd = ''/srv'', files = Map.empty([''tmp''] \<mapsto> Dir)\<rparr> ''https://example.org/v'' ''999p'' ''MP4 - Video'' ''none'' ''Warp''
     = build_web_cmd \<lparr>cwd = ''/srv'', files = Map.empty\<rparr> ''https://example.org/v'' ''999p'' ''MP4 - Video'' ''none'' ''Warp''"
proof -
  let ?os = "\<lparr>cwd = ''/srv'', files = Map.empty\<rparr>"
  let ?os' = "\<lparr>cwd = ''/srv'', files = Map.empty([''tmp''] \<mapsto> Dir)\<rparr>"
  have q: "map_of QUALITY_MAP ''999p'' = None" by (simp add: QUALITY_MAP_def)
  have s: "map_of SPEED_MAP ''Warp'' = None" by (simp add: SPEED_MAP_def)
  have same: "cwd ?os' = cwd ?os \<and> path_exists (files ?os') (path_join (cwd ?os') ''cookies.txt'')
          = path_exists (files ?os) (path_join (cwd ?os) ''cookies.txt'')"
    by code_simp
  note t1 = build_web_cmd_deterministic_defaults
    [of ?os "''https://example.org/v''" "''999p''" "''MP4 - Video''" "''none''" "''Warp''" ?os']
  note t2 = build_web_cmd_deterministic_defaults
    [of ?os "''https://example.org/v''" "''480p''" "''MP4 - Video''" "''none''" "''Warp''" ?os']
  have v: "build_web_cmd ?os ''https://example.org/v'' ''480p'' ''MP4 - Video'' ''none'' ''Turbo''
     = Inr [''yt-dlp'', ''-f'', ''best[height<=480][ext=mp4]'', ''--no-playlist'',
            ''--concurrent-fragments'', ''40'', ''--http-chunk-size'', ''10M'',
            ''--retries'', ''3'', ''--fragment-retries'', ''3'', ''--newline'',
            ''-o'', ''/srv/web_downloader/%(title)s.%(ext)s'', ''https://example.org/v'']"
    by code_simp
  from t1 t2 q s same v show ?thesis by simp
qed

section \<open>Submission\<close>




section \<open>The job runner's final states\<close>

lemma process_line_done_error:
  "job_done (process_line j raw) = job_done j \<and> error (process_line j raw) = error j"
  by (simp add: process_line_def Let_def split: option.split prod.split)

lemma foldl_process_line_done_error:
  "job_done (foldl process_line j raws) = job_done j
   \<and> error (foldl process_line j raws) = error j"
  by (induction raws arbitrary: j) (simp_all add: process_line_done_error)

lemma run_job_spawn_failed:
  "job_done (run_job sc dir (Spawn_failed e)) = False
   \<and> error (run_job sc dir (Spawn_failed e)) = Some e"
  by (simp add: run_job_def initial_job_def)

lemma run_job_read_error:
  "job_done (run_job sc dir (Ran raws (Some e) ret)) = False
   \<and> error (run_job sc dir (Ran raws (Some e) ret)) = Some e"
  by (simp add: run_job_def Let_def foldl_process_line_done_error initial_job_def)

lemma run_job_nonzero_exit:
  assumes "ret \<noteq> 0"
  shows "job_done (run_job sc dir (Ran raws None ret)) = False
   \<and> error (run_job sc dir (Ran raws None ret)) = Some (''yt-dlp exited '' @ str_int ret)"
  using assms by (simp add: run_job_def Let_def foldl_process_line_done_error initial_job_def)

lemma run_job_zero_exit_named:
  assumes "filename (foldl process_line initial_job raws) = Some f" and "f \<noteq> []"
  shows "job_done (run_job sc dir (Ran raws None 0)) = True
   \<and> error (run_job sc dir (Ran raws None 0)) = None
   \<and> filename (run_job sc dir (Ran raws None 0)) = Some f"
  using assms
  by (simp add: run_job_def Let_def finish_ok_def falsy_def foldl_process_line_done_error
      initial_job_def)

lemma run_job_zero_exit_scanned:
  assumes "newest_first sc dir = Inr fs"
  shows "job_done (run_job sc dir (Ran raws None 0)) = True
   \<and> error (run_job sc dir (Ran raws None 0)) = None"
  using assms
  by (simp add: run_job_def Let_def finish_ok_def foldl_process_line_done_error
      initial_job_def split: list.split)

text \<open>
  Claim C3. The specification: after exit code zero the job is done and has no error,
  and its file name is the announced one when a destination line was seen; after another
  exit code it is not done and its error names the code; after an exception it is not
  done and has the exception's text as its error. The lemmas above show this on every
  path but one. After exit code zero the job is marked done before the fallback scan of
  the download directory runs, and the scan runs inside the \<open>try\<close>: when no
  destination line was seen and the scan raises, the handler stores the message, and the
  job ends done and with an error. Here the directory cannot be listed.
\<close>

theorem run_job_exit_zero_scan_raises:
  "job_done (run_job scan_unlistable ''/srv/web_downloader''
      (Ran [''[download] 100% of 3.00MiB in 00:01''] None 0)) = True
   \<and> error (run_job scan_unlistable ''/srv/web_downloader''
      (Ran [''[download] 100% of 3.00MiB in 00:01''] None 0))
      = Some ''[Errno 13] Permission denied''"
  by code_simp

text \<open>
  Claim C4. The specification: no job is ever both done and in error, on any path of the
  runner. The path of the fallback scan gives such a job. Here a file that was listed is
  gone when the scan asks for its time, as happens when another runner's download is
  renamed or a delivered file is deleted.
\<close>

theorem run_job_done_and_error:
  "job_done (run_job scan_vanishing ''/srv/web_downloader'' (Ran [] None 0)) = True
   \<and> error (run_job scan_vanishing ''/srv/web_downloader'' (Ran [] None 0))
      = Some ''[Errno 2] No such file or directory''"
  by code_simp

section \<open>Delivery and clean-up\<close>

text \<open>
  Claim C2. The specification: a file name is resolved within the download directory;
  a name that leads out of it is answered not-found, nothing outside is served, and no
  deletion outside is scheduled. The handler joins the name to the download directory
  without looking at it, and schedules the deletion of the joined path before
  \<open>send_from_directory\<close> refuses the name. For the name \<open>../app.py\<close> the answer
  is \<open>NotFound\<close> and nothing is served, but the deletion of the service's own source
  file, outside the download directory, is scheduled, and the file is gone once the
  deletion has run.
\<close>

theorem web_fetch_traversal_deletes_outside:
  "fst (web_fetch example_os ''../app.py'' empty_state) = NotFound
   \<and> deletions (snd (web_fetch example_os ''../app.py'' empty_state))
       = [(10, ''/srv/web_downloader/../app.py'')]
   \<and> inside (files example_os) (WEB_DOWNLOADER_DIR example_os) ''/srv/web_downloader/../app.py''
       = False
   \<and> file_bytes (files example_os) ''/srv/app.py'' = Some ''import os''
   \<and> file_bytes (delayed_delete (files example_os) ''/srv/web_downloader/../app.py'') ''/srv/app.py''
       = None"
  by code_simp

lemma split_sep_not_Nil: "split_sep sep s \<noteq> []"
  by (induction s) (auto split: list.split)

lemma split_sep_append_sep:
  "split_sep sep (a @ sep # b) = split_sep sep a @ split_sep sep b"
  by (induction a) (auto simp: split_sep_not_Nil split: list.split)

lemma split_sep_plain: "sep \<notin> set s \<Longrightarrow> split_sep sep s = [s]"
  by (induction s) auto

lemma walk_append:
  "walk fs cur (xs @ ys) = (case walk fs cur xs of None \<Rightarrow> None | Some c \<Rightarrow> walk fs c ys)"
  by (induction xs arbitrary: cur) (auto split: option.split)

lemma resolve_child:
  assumes d: "resolve fs dir = Some d" and "is_dir fs d" and "plain_name name"
    and "fs (d @ [name]) = Some n"
  shows "resolve fs (dir @ ''/'' @ name) = Some (d @ [name])"
proof -
  from d obtain cs where dir: "dir = CHR ''/'' # cs" and w: "walk fs [] (split_sep CHR ''/'' cs) = Some d"
    by (auto simp: resolve_def split: list.splits if_splits)
  have "split_sep CHR ''/'' (cs @ CHR ''/'' # name) = split_sep CHR ''/'' cs @ [name]"
    using assms(3) by (simp add: split_sep_append_sep split_sep_plain plain_name_def)
  then show ?thesis
    using w assms(2,3,4) by (simp add: resolve_def dir walk_append plain_name_def)
qed

lemma plain_name_no_slash_front:
  assumes "plain_name name"
  shows "take (Suc 0) name \<noteq> ''/''" and "take 3 name \<noteq> ''../''"
proof -
  show "take (Suc 0) name \<noteq> ''/''"
    using assms by (cases name) (auto simp: plain_name_def)
  show "take 3 name \<noteq> ''../''"
  proof
    assume "take 3 name = ''../''"
    then have "CHR ''/'' \<in> set (take 3 name)" by simp
    then have "CHR ''/'' \<in> set name" by (rule in_set_takeD)
    with assms show False by (simp add: plain_name_def)
  qed
qed

lemma normpath_plain:
  assumes "plain_name name"
  shows "normpath name = name"
proof -
  have s: "split_sep CHR ''/'' name = [name]"
    using assms by (simp add: split_sep_plain plain_name_def)
  have n: "name \<noteq> []" "name \<noteq> ''.''" "name \<noteq> ''..''"
    using assms by (simp_all add: plain_name_def)
  have st: "norm_step 0 [] name = [name]"
    using n by (simp add: norm_step_def)
  show ?thesis
    unfolding normpath_def s Let_def
    using n(1) plain_name_no_slash_front(1) [OF assms] by (simp add: st)
qed

lemma WEB_DOWNLOADER_DIR_nonempty: "WEB_DOWNLOADER_DIR os \<noteq> []"
  by (simp add: WEB_DOWNLOADER_DIR_def path_join_def)

lemma WEB_DOWNLOADER_DIR_last: "last (WEB_DOWNLOADER_DIR os) \<noteq> CHR ''/''"
  by (simp add: WEB_DOWNLOADER_DIR_def path_join_def)

lemma path_join_plain:
  assumes "plain_name name"
  shows "path_join (WEB_DOWNLOADER_DIR os) name = WEB_DOWNLOADER_DIR os @ ''/'' @ name"
  using plain_name_no_slash_front(1) [OF assms]
  by (simp add: path_join_def WEB_DOWNLOADER_DIR_nonempty WEB_DOWNLOADER_DIR_last)

lemma safe_join_plain:
  assumes "plain_name name"
  shows "safe_join (WEB_DOWNLOADER_DIR os) name = Some (path_join (WEB_DOWNLOADER_DIR os) name)"
proof -
  have n: "name \<noteq> []" "name \<noteq> ''..''"
    using assms by (simp_all add: plain_name_def)
  show ?thesis
    unfolding safe_join_def Let_def normpath_plain [OF assms]
    using n plain_name_no_slash_front [OF assms]
    by (simp add: WEB_DOWNLOADER_DIR_nonempty)
qed

text \<open>
  Delivery where the handler's own test decides. A fetch of a name whose joined path
  does not exist is answered \<open>File not found\<close> and schedules nothing. A fetch of a
  path that exists schedules its deletion, with delay 10, whatever becomes of the
  transfer. A fetch of a regular file of the download directory, asked for by its plain
  name, returns the file's bytes, and the scheduled deletion takes the file out of the
  directory. A deletion whose \<open>os.remove\<close> raises changes nothing: the exception is
  swallowed.
\<close>

theorem web_fetch_delivers_and_cleans:
  "(\<not> path_exists (files os) (path_join (WEB_DOWNLOADER_DIR os) name)
      \<longrightarrow> web_fetch os name st = (File_not_found, st))
   \<and> (path_exists (files os) (path_join (WEB_DOWNLOADER_DIR os) name)
      \<longrightarrow> deletions (snd (web_fetch os name st))
            = deletions st @ [(10, path_join (WEB_DOWNLOADER_DIR os) name)])
   \<and> (plain_name name \<and> resolve (files os) (WEB_DOWNLOADER_DIR os) = Some d
        \<and> is_dir (files os) d \<and> files os (d @ [name]) = Some (File b)
      \<longrightarrow> web_fetch os name st
            = (Attachment b,
               st\<lparr>deletions := deletions st @ [(10, path_join (WEB_DOWNLOADER_DIR os) name)]\<rparr>)
          \<and> delayed_delete (files os) (path_join (WEB_DOWNLOADER_DIR os) name)
            = (files os)(d @ [name] := None))
   \<and> (os_remove fs path = Inl e \<longrightarrow> delayed_delete fs path = fs)"
proof (intro conjI impI)
  assume "\<not> path_exists (files os) (path_join (WEB_DOWNLOADER_DIR os) name)"
  then show "web_fetch os name st = (File_not_found, st)"
    by (simp add: web_fetch_def)
next
  assume "path_exists (files os) (path_join (WEB_DOWNLOADER_DIR os) name)"
  then show "deletions (snd (web_fetch os name st))
            = deletions st @ [(10, path_join (WEB_DOWNLOADER_DIR os) name)]"
    by (simp add: web_fetch_def)
next
  assume h: "plain_name name \<and> resolve (files os) (WEB_DOWNLOADER_DIR os) = Some d
        \<and> is_dir (files os) d \<and> files os (d @ [name]) = Some (File b)"
  then have "resolve (files os) (WEB_DOWNLOADER_DIR os @ ''/'' @ name) = Some (d @ [name])"
    by (intro resolve_child) simp_all
  with h have r: "resolve (files os) (path_join (WEB_DOWNLOADER_DIR os) name) = Some (d @ [name])"
    by (simp only: path_join_plain)
  from h have sj: "safe_join (WEB_DOWNLOADER_DIR os) name = Some (path_join (WEB_DOWNLOADER_DIR os) name)"
    by (simp add: safe_join_plain)
  show "web_fetch os name st
            = (Attachment b,
               st\<lparr>deletions := deletions st @ [(10, path_join (WEB_DOWNLOADER_DIR os) name)]\<rparr>)"
    using h by (simp add: web_fetch_def path_exists_def r send_from_directory_def sj file_bytes_def)
  show "delayed_delete (files os) (path_join (WEB_DOWNLOADER_DIR os) name)
            = (files os)(d @ [name] := None)"
    using h by (simp add: delayed_delete_def os_remove_def r)
next
  assume "os_remove fs path = Inl e"
  then show "delayed_delete fs path = fs"
    by (simp add: delayed_delete_def)
qed

theorem web_fetch_delivers_and_cleans_witness:
  "web_fetch example_os ''b.mp4'' empty_state = (File_not_found, empty_state)
   \<and> deletions (snd (web_fetch example_os ''a.mp4'' empty_state))
        = [(10, ''/srv/web_downloader/a.mp4'')]
   \<and> web_fetch example_os ''a.mp4'' empty_state
        = (Attachment ''video bytes'',
           empty_state\<lparr>deletions := [(10, ''/srv/web_downloader/a.mp4'')]\<rparr>)
   \<and> delayed_delete (files example_os) ''/srv/web_downloader/a.mp4''
        = (files example_os)([''srv'', ''web_downloader'', ''a.mp4''] := None)
   \<and> delayed_delete (files example_os) ''/srv/web_downloader/b.mp4'' = files example_os"
proof -
  have p: "path_join (WEB_DOWNLOADER_DIR example_os) ''a.mp4'' = ''/srv/web_downloader/a.mp4''"
    by code_simp
  have e: "deletions empty_state = []"
    by (simp add: empty_state_def)
  have h1: "\<not> path_exists (files example_os) (path_join (WEB_DOWNLOADER_DIR example_os) ''b.mp4'')"
    by code_simp
  have h2: "path_exists (files example_os) (path_join (WEB_DOWNLOADER_DIR example_os) ''a.mp4'')"
    by code_simp
  have h3: "plain_name ''a.mp4''
        \<and> resolve (files example_os) (WEB_DOWNLOADER_DIR example_os) = Some [''srv'', ''web_downloader'']
        \<and> is_dir (files example_os) [''srv'', ''web_downloader'']
        \<and> files example_os ([''srv'', ''web_downloader''] @ [''a.mp4'']) = Some (File ''video bytes'')"
    by code_simp
  have "resolve (files example_os) ''/srv/web_downloader/b.mp4'' = None"
    by code_simp
  then have h4: "os_remove (files example_os) ''/srv/web_downloader/b.mp4''
      = Inl ''[Errno 2] No such file or directory''"
    by (simp add: os_remove_def)
  note t1 = web_fetch_delivers_and_cleans [of example_os "''b.mp4''" empty_state
      "[''srv'', ''web_downloader'']" "''video bytes''" "files example_os" "''/srv/web_downloader/b.mp4''"
      "''[Errno 2] No such file or directory''"]
  note t2 = web_fetch_delivers_and_cleans [of example_os "''a.mp4''" empty_state
      "[''srv'', ''web_downloader'']" "''video bytes''" "files example_os" "''/srv/web_downloader/b.mp4''"
      "''[Errno 2] No such file or directory''"]
  from t1 h1 have c1: "web_fetch example_os ''b.mp4'' empty_state = (File_not_found, empty_state)"
    by blast
  from t2 h2 have c2: "deletions (snd (web_fetch example_os ''a.mp4'' empty_state))
        = deletions empty_state @ [(10, path_join (WEB_DOWNLOADER_DIR example_os) ''a.mp4'')]"
    by blast
  from t2 h3 have c3: "web_fetch example_os ''a.mp4'' empty_state
            = (Attachment ''video bytes'',
               empty_state\<lparr>deletions := deletions empty_state @ [(10, path_join (WEB_DOWNLOADER_DIR example_os) ''a.mp4'')]\<rparr>)
          \<and> delayed_delete (files example_os) (path_join (WEB_DOWNLOADER_DIR example_os) ''a.mp4'')
            = (files example_os)([''srv'', ''web_downloader''] @ [''a.mp4''] := None)"
    by blast
  from t2 h4 have c4: "delayed_delete (files example_os) ''/srv/web_downloader/b.mp4'' = files example_os"
    by blast
  from c1 c2 c3 c4 show ?thesis
    unfolding p e by simp
qed

text \<open>
  Claim C8. The specification: a fetch of a name that does not exist in the download
  directory is answered not-found and schedules no deletion; a fetch of an existing file
  returns its bytes and schedules its removal after the delay of 10, whatever becomes of
  the transfer, a failing removal being swallowed. The handler tests the joined path
  with \<open>os.path.exists\<close>, which follows \<open>.\<close> and \<open>..\<close>, and starts the deletion
  thread before \<open>send_from_directory\<close> looks at the name. The names \<open>.\<close> and
  \<open>../app.py\<close> are no entries of the download directory and both fetches are answered
  \<open>NotFound\<close>, yet each schedules a deletion. For plain names the handler does what
  the specification says (\<open>web_fetch_delivers_and_cleans\<close>).
\<close>

theorem web_fetch_not_found_schedules_deletion:
  "files example_os [''srv'', ''web_downloader'', ''.''] = None
   \<and> fst (web_fetch example_os ''.'' empty_state) = NotFound
   \<and> deletions (snd (web_fetch example_os ''.'' empty_state))
       = [(10, ''/srv/web_downloader/.'')]
   \<and> files example_os [''srv'', ''web_downloader'', ''../app.py''] = None
   \<and> fst (web_fetch example_os ''../app.py'' empty_state) = NotFound
   \<and> deletions (snd (web_fetch example_os ''../app.py'' empty_state))
       = [(10, ''/srv/web_downloader/../app.py'')]"
  by code_simp

section \<open>The engine against the meaning of the patterns\<close>

lemma le_length_takeWhile_iff:
  "n \<le> length (takeWhile P s) \<longleftrightarrow> n \<le> length s \<and> list_all P (take n s)"
proof (induction s arbitrary: n)
  case Nil
  then show ?case by simp
next
  case (Cons x xs)
  then show ?case by (cases n) auto
qed

lemma set_rep_counts:
  "set (rep_counts P lo hi s) = {n. in_bounds lo hi n \<and> n \<le> length s \<and> list_all P (take n s)}"
  by (auto simp: rep_counts_def Let_def in_bounds_def le_length_takeWhile_iff [symmetric]
      split: option.splits)

lemma rep_states:
  "(\<lambda>n. (drop n s, c)) ` set (rep_counts P lo hi s)
     = {(s', c) | s' t. s = t @ s' \<and> list_all P t \<and> in_bounds lo hi (length t)}"
proof (intro set_eqI iffI)
  fix st
  assume "st \<in> (\<lambda>n. (drop n s, c)) ` set (rep_counts P lo hi s)"
  then obtain n where n: "st = (drop n s, c)" "in_bounds lo hi n" "n \<le> length s"
      "list_all P (take n s)"
    by (auto simp: set_rep_counts)
  then have "s = take n s @ drop n s" "in_bounds lo hi (length (take n s))"
    by simp_all
  with n show "st \<in> {(s', c) | s' t. s = t @ s' \<and> list_all P t \<and> in_bounds lo hi (length t)}"
    by blast
next
  fix st
  assume "st \<in> {(s', c) | s' t. s = t @ s' \<and> list_all P t \<and> in_bounds lo hi (length t)}"
  then obtain s' t where t: "st = (s', c)" "s = t @ s'" "list_all P t" "in_bounds lo hi (length t)"
    by blast
  then have "length t \<in> set (rep_counts P lo hi s)" "drop (length t) s = s'"
    by (simp_all add: set_rep_counts)
  with t show "st \<in> (\<lambda>n. (drop n s, c)) ` set (rep_counts P lo hi s)"
    by force
qed

theorem run_lang:
  "set (run r st) = {(s', d @ snd st) | s' d t. fst st = t @ s' \<and> (t, d) \<in> lang r}"
proof (induction r arbitrary: st)
  case Eps
  show ?case by (cases st) auto
next
  case (Cls P)
  show ?case by (cases st) (auto split: list.splits)
next
  case (Greedy P lo hi)
  show ?case
    using rep_states [of "fst st" "snd st" P lo hi] by (auto simp: image_iff)
next
  case (Lazy P lo hi)
  show ?case
    using rep_states [of "fst st" "snd st" P lo hi] by (auto simp: image_iff)
next
  case (Cat a b)
  show ?case
  proof (intro set_eqI iffI)
    fix x
    assume "x \<in> set (run (Cat a b) st)"
    then obtain m where m: "m \<in> set (run a st)" and x: "x \<in> set (run b m)"
      by auto
    from m obtain s1 d1 t1 where 1: "m = (s1, d1 @ snd st)" "fst st = t1 @ s1" "(t1, d1) \<in> lang a"
      unfolding Cat.IH(1) by blast
    from x obtain s2 d2 t2 where 2: "x = (s2, d2 @ snd m)" "fst m = t2 @ s2" "(t2, d2) \<in> lang b"
      unfolding Cat.IH(2) by blast
    have "x = (s2, (d2 @ d1) @ snd st)" "fst st = (t1 @ t2) @ s2" "(t1 @ t2, d2 @ d1) \<in> lang (Cat a b)"
      using 1 2 by auto
    then show "x \<in> {(s', d @ snd st) | s' d t. fst st = t @ s' \<and> (t, d) \<in> lang (Cat a b)}"
      by blast
  next
    fix x
    assume "x \<in> {(s', d @ snd st) | s' d t. fst st = t @ s' \<and> (t, d) \<in> lang (Cat a b)}"
    then obtain s2 t1 t2 d1 d2 where x: "x = (s2, (d2 @ d1) @ snd st)" "fst st = (t1 @ t2) @ s2"
        "(t1, d1) \<in> lang a" "(t2, d2) \<in> lang b"
      by auto
    let ?m = "(t2 @ s2, d1 @ snd st)"
    have "?m \<in> set (run a st)"
      unfolding Cat.IH(1) using x by auto
    moreover have "x \<in> set (run b ?m)"
      unfolding Cat.IH(2) using x by auto
    ultimately show "x \<in> set (run (Cat a b) st)"
      by auto
  qed
next
  case (Alt a b)
  show ?case
    unfolding run.simps set_append Alt.IH lang.simps by blast
next
  case (Grp k r)
  show ?case
  proof (intro set_eqI iffI)
    fix x
    assume "x \<in> set (run (Grp k r) st)"
    then obtain m where m: "m \<in> set (run r st)"
      and x: "x = (fst m, (k, take (length (fst st) - length (fst m)) (fst st)) # snd m)"
      by auto
    from m obtain s1 d1 t1 where 1: "m = (s1, d1 @ snd st)" "fst st = t1 @ s1" "(t1, d1) \<in> lang r"
      unfolding Grp.IH by blast
    have "x = (s1, ((k, t1) # d1) @ snd st)" "(t1, (k, t1) # d1) \<in> lang (Grp k r)"
      using x 1 by auto
    with 1 show "x \<in> {(s', d @ snd st) | s' d t. fst st = t @ s' \<and> (t, d) \<in> lang (Grp k r)}"
      by blast
  next
    fix x
    assume "x \<in> {(s', d @ snd st) | s' d t. fst st = t @ s' \<and> (t, d) \<in> lang (Grp k r)}"
    then obtain s1 t1 d1 where x: "x = (s1, ((k, t1) # d1) @ snd st)" "fst st = t1 @ s1"
        "(t1, d1) \<in> lang r"
      by auto
    then have mem: "(s1, d1 @ snd st) \<in> set (run r st)"
      unfolding Grp.IH by blast
    have "x = (\<lambda>st'. (fst st', (k, take (length (fst st) - length (fst st')) (fst st)) # snd st'))
                (s1, d1 @ snd st)"
      using x by simp
    from this mem show "x \<in> set (run (Grp k r) st)"
      unfolding run.simps set_map by (rule image_eqI)
  qed
qed


text \<open>The search finds a match exactly when some piece of the text is in the language.\<close>

lemma run_Nil_iff:
  "run r (s, []) = [] \<longleftrightarrow> (\<forall>t post d. s = t @ post \<longrightarrow> (t, d) \<notin> lang r)"
proof -
  have "run r (s, []) = [] \<longleftrightarrow> set (run r (s, [])) = {}"
    by simp
  also have "\<dots> \<longleftrightarrow> (\<forall>t post d. s = t @ post \<longrightarrow> (t, d) \<notin> lang r)"
    unfolding run_lang by auto
  finally show ?thesis .
qed

lemma run_hd_lang:
  assumes "run r (s, []) = st # rest"
  shows "\<exists>t. s = t @ fst st \<and> (t, snd st) \<in> lang r"
proof -
  have "st \<in> set (run r (s, []))"
    using assms by simp
  then show ?thesis
    unfolding run_lang by auto
qed

lemma search_None_iff:
  "search r s = None \<longleftrightarrow> (\<forall>pre t post d. s = pre @ t @ post \<longrightarrow> (t, d) \<notin> lang r)"
proof (induction s)
  case Nil
  have "search r [] = None \<longleftrightarrow> run r ([], []) = []"
    by (auto split: list.splits)
  also have "\<dots> \<longleftrightarrow> (\<forall>d. ([], d) \<notin> lang r)"
    unfolding run_Nil_iff by simp
  also have "\<dots> \<longleftrightarrow> (\<forall>pre t post d. [] = pre @ t @ post \<longrightarrow> (t, d) \<notin> lang r)"
    by simp
  finally show ?case .
next
  case (Cons c cs)
  have "search r (c # cs) = None \<longleftrightarrow> run r (c # cs, []) = [] \<and> search r cs = None"
    by (auto split: list.splits)
  also have "\<dots> \<longleftrightarrow> (\<forall>t post d. c # cs = t @ post \<longrightarrow> (t, d) \<notin> lang r)
      \<and> (\<forall>pre t post d. cs = pre @ t @ post \<longrightarrow> (t, d) \<notin> lang r)"
    unfolding run_Nil_iff Cons.IH ..
  also have "\<dots> \<longleftrightarrow> (\<forall>pre t post d. c # cs = pre @ t @ post \<longrightarrow> (t, d) \<notin> lang r)"
  proof (intro iffI allI impI conjI)
    fix pre t post d
    assume h: "(\<forall>t post d. c # cs = t @ post \<longrightarrow> (t, d) \<notin> lang r)
      \<and> (\<forall>pre t post d. cs = pre @ t @ post \<longrightarrow> (t, d) \<notin> lang r)"
      and e: "c # cs = pre @ t @ post"
    show "(t, d) \<notin> lang r"
    proof (cases pre)
      case Nil
      with h e show ?thesis by simp
    next
      case (Cons p ps)
      with e have "cs = ps @ t @ post" by simp
      with h show ?thesis by blast
    qed
  next
    fix t post d
    assume h: "\<forall>pre t post d. c # cs = pre @ t @ post \<longrightarrow> (t, d) \<notin> lang r"
      and e: "c # cs = t @ post"
    from e have "c # cs = [] @ t @ post" by simp
    with h show "(t, d) \<notin> lang r" by blast
  next
    fix pre t post d
    assume h: "\<forall>pre t post d. c # cs = pre @ t @ post \<longrightarrow> (t, d) \<notin> lang r"
      and e: "cs = pre @ t @ post"
    from e have "c # cs = (c # pre) @ t @ post" by simp
    with h show "(t, d) \<notin> lang r" by blast
  qed
  finally show ?case .
qed

lemma search_Some_lang:
  assumes "search r s = Some m"
  shows "\<exists>pre t post. s = pre @ t @ post \<and> (t, m) \<in> lang r"
  using assms
proof (induction s)
  case Nil
  then obtain st rest where "run r ([], []) = st # rest" "m = snd st"
    by (auto split: list.splits)
  with run_hd_lang [of r "[]" st rest] show ?case
    by auto
next
  case (Cons c cs)
  show ?case
  proof (cases "run r (c # cs, [])")
    case Nil
    with Cons.prems have "search r cs = Some m" by simp
    then obtain pre t post where "cs = pre @ t @ post" "(t, m) \<in> lang r"
      using Cons.IH by blast
    then have "c # cs = (c # pre) @ t @ post \<and> (t, m) \<in> lang r" by simp
    then show ?thesis by blast
  next
    case (Cons st rest)
    with Cons.prems have m: "m = snd st" by simp
    from run_hd_lang [OF Cons] obtain t where "c # cs = t @ fst st" "(t, snd st) \<in> lang r"
      by blast
    then have "c # cs = [] @ t @ fst st \<and> (t, m) \<in> lang r"
      using m by simp
    then show ?thesis by blast
  qed
qed

subsection \<open>The languages of the program's patterns\<close>

lemma in_lang_Cls: "(t, d) \<in> lang (Cls P) \<longleftrightarrow> (\<exists>x. t = [x] \<and> P x \<and> d = [])"
  by auto

lemma in_lang_Greedy:
  "(t, d) \<in> lang (Greedy P lo hi) \<longleftrightarrow> list_all P t \<and> in_bounds lo hi (length t) \<and> d = []"
  by auto

lemma in_lang_Lazy:
  "(t, d) \<in> lang (Lazy P lo hi) \<longleftrightarrow> list_all P t \<and> in_bounds lo hi (length t) \<and> d = []"
  by auto

lemma in_lang_Cat:
  "(t, d) \<in> lang (Cat a b) \<longleftrightarrow>
     (\<exists>t1 t2 d1 d2. t = t1 @ t2 \<and> d = d2 @ d1 \<and> (t1, d1) \<in> lang a \<and> (t2, d2) \<in> lang b)"
  by auto

lemma in_lang_Grp: "(t, d) \<in> lang (Grp k r) \<longleftrightarrow> (\<exists>d0. (t, d0) \<in> lang r \<and> d = (k, t) # d0)"
  by auto

lemma in_lang_lits: "(t, d) \<in> lang (lits w) \<longleftrightarrow> t = w \<and> d = []"
proof (induction w arbitrary: t d)
  case Nil
  show ?case by auto
next
  case (Cons c cs)
  show ?case
    unfolding lits.simps in_lang_Cat in_lang_Cls Cons.IH by auto
qed

lemma lang_re_pct: "(t, d) \<in> lang re_pct \<longleftrightarrow> pct_text t \<and> d = [(1, t)]"
  unfolding re_pct_def in_lang_Grp lang.simps(6) Un_iff in_lang_Cat in_lang_Cls in_lang_Greedy
    pct_text_def digits_def
  by auto

lemma lang_CatI:
  "(t1, d1) \<in> lang a \<Longrightarrow> (t2, d2) \<in> lang b \<Longrightarrow> (t1 @ t2, d2 @ d1) \<in> lang (Cat a b)"
  by auto

lemma lang_re_rate: "(t, d) \<in> lang re_rate \<longleftrightarrow> rate_text t \<and> d = [(2, t)]"
proof
  assume "(t, d) \<in> lang re_rate"
  then obtain m u where *: "t = m @ u @ ''iB/s''" "list_all is_digit_or_dot m"
      "Suc 0 \<le> length m" "list_all is_KMG u" "length u \<le> Suc 0" "d = [(2, t)]"
    unfolding re_rate_def in_lang_Grp in_lang_Cat in_lang_Greedy in_lang_lits
    by (auto simp: in_bounds_def)
  then have "m \<noteq> []" by auto
  with * show "rate_text t \<and> d = [(2, t)]"
    unfolding rate_text_def by (intro conjI exI [of _ m] exI [of _ u]) simp_all
next
  assume "rate_text t \<and> d = [(2, t)]"
  then obtain m u where *: "t = m @ u @ ''iB/s''" "m \<noteq> []" "list_all is_digit_or_dot m"
      "list_all is_KMG u" "length u \<le> 1" "d = [(2, t)]"
    unfolding rate_text_def by blast
  have 1: "(m, []) \<in> lang (Greedy is_digit_or_dot 1 None)"
    using * by (cases m) (auto simp: in_bounds_def)
  have 2: "(u, []) \<in> lang (Greedy is_KMG 0 (Some 1))"
    using * by (auto simp: in_bounds_def)
  have 3: "(''iB/s'', []) \<in> lang (lits ''iB/s'')"
    by (simp only: in_lang_lits)
  have "(m @ u @ ''iB/s'', ([] @ []) @ [])
      \<in> lang (Cat (Greedy is_digit_or_dot 1 None) (Cat (Greedy is_KMG 0 (Some 1)) (lits ''iB/s'')))"
    by (intro lang_CatI 1 2 3)
  then show "(t, d) \<in> lang re_rate"
    unfolding re_rate_def in_lang_Grp using * by simp
qed

lemma lang_re_eta: "(t, d) \<in> lang re_eta \<longleftrightarrow> eta_text t \<and> d = [(3, t)]"
  unfolding re_eta_def in_lang_Grp in_lang_Cat in_lang_Cls in_lang_Greedy eta_text_def digits_def
  by auto

lemma in_lang_spaces: "(t, d) \<in> lang (Greedy is_space 1 None) \<longleftrightarrow> spaces t \<and> d = []"
  by (cases t) (auto simp: spaces_def in_bounds_def)

lemma in_lang_gap: "(t, d) \<in> lang (Lazy not_newline 0 None) \<longleftrightarrow> list_all not_newline t \<and> d = []"
  by (auto simp: in_bounds_def)

lemma lang_re_reduced:
  "(t, d) \<in> lang re_reduced \<longleftrightarrow>
     (\<exists>num mid ws rate. t = num @ ''%'' @ mid @ ''at'' @ ws @ rate
        \<and> pct_text num \<and> list_all not_newline mid \<and> spaces ws \<and> rate_text rate
        \<and> d = [(2, rate), (1, num)])"
proof
  assume "(t, d) \<in> lang re_reduced"
  then obtain num mid ws rate where
    "t = num @ ''%'' @ mid @ ''at'' @ ws @ rate \<and> pct_text num \<and> list_all not_newline mid
       \<and> spaces ws \<and> rate_text rate \<and> d = [(2, rate), (1, num)]"
    unfolding re_reduced_def in_lang_Cat lang_re_pct lang_re_rate in_lang_spaces in_lang_gap
      in_lang_lits in_lang_Cls
    by auto
  then show "\<exists>num mid ws rate. t = num @ ''%'' @ mid @ ''at'' @ ws @ rate
        \<and> pct_text num \<and> list_all not_newline mid \<and> spaces ws \<and> rate_text rate
        \<and> d = [(2, rate), (1, num)]"
    by blast
next
  assume "\<exists>num mid ws rate. t = num @ ''%'' @ mid @ ''at'' @ ws @ rate
        \<and> pct_text num \<and> list_all not_newline mid \<and> spaces ws \<and> rate_text rate
        \<and> d = [(2, rate), (1, num)]"
  then obtain num mid ws rate where
    *: "t = num @ ''%'' @ mid @ ''at'' @ ws @ rate" "pct_text num" "list_all not_newline mid"
      "spaces ws" "rate_text rate" "d = [(2, rate), (1, num)]"
    by blast
  have 1: "(num, [(1, num)]) \<in> lang re_pct"
    using *(2) by (simp only: lang_re_pct)
  have 2: "(''%'', []) \<in> lang (Cls ((=) CHR ''%''))"
    by (simp only: in_lang_Cls) blast
  have 3: "(mid, []) \<in> lang (Lazy not_newline 0 None)"
    using *(3) by (simp only: in_lang_gap)
  have 4: "(''at'', []) \<in> lang (lits ''at'')"
    by (simp only: in_lang_lits)
  have 5: "(ws, []) \<in> lang (Greedy is_space 1 None)"
    using *(4) by (simp only: in_lang_spaces)
  have 6: "(rate, [(2, rate)]) \<in> lang re_rate"
    using *(5) by (simp only: lang_re_rate)
  have "(num @ ''%'' @ mid @ ''at'' @ ws @ rate, (((([(2, rate)] @ []) @ []) @ []) @ []) @ [(1, num)])
      \<in> lang (Cat re_pct (Cat (Cls ((=) CHR ''%'')) (Cat (Lazy not_newline 0 None)
         (Cat (lits ''at'') (Cat (Greedy is_space 1 None) re_rate)))))"
    by (intro lang_CatI 1 2 3 4 5 6)
  then show "(t, d) \<in> lang re_reduced"
    unfolding re_reduced_def using *(1,6) by simp
qed

lemma lang_re_full:
  "(t, d) \<in> lang re_full \<longleftrightarrow>
     (\<exists>num mid ws rate mid2 ws2 eta_t.
        t = num @ ''%'' @ mid @ ''at'' @ ws @ rate @ mid2 @ ''ETA'' @ ws2 @ eta_t
        \<and> pct_text num \<and> list_all not_newline mid \<and> spaces ws \<and> rate_text rate
        \<and> list_all not_newline mid2 \<and> spaces ws2 \<and> eta_text eta_t
        \<and> d = [(3, eta_t), (2, rate), (1, num)])"
proof
  assume "(t, d) \<in> lang re_full"
  then obtain t1 t2 d1 d2 where c: "t = t1 @ t2" "d = d2 @ d1" "(t1, d1) \<in> lang re_reduced"
      and rest: "(t2, d2) \<in> lang (Cat (Lazy not_newline 0 None)
         (Cat (lits ''ETA'') (Cat (Greedy is_space 1 None) re_eta)))"
    unfolding re_full_def in_lang_Cat [of _ _ re_reduced] by blast
  from c(3) obtain num mid ws rate where r: "t1 = num @ ''%'' @ mid @ ''at'' @ ws @ rate"
      "pct_text num" "list_all not_newline mid" "spaces ws" "rate_text rate"
      "d1 = [(2, rate), (1, num)]"
    unfolding lang_re_reduced by blast
  from rest obtain mid2 ws2 eta_t where e: "t2 = mid2 @ ''ETA'' @ ws2 @ eta_t"
      "list_all not_newline mid2" "spaces ws2" "eta_text eta_t" "d2 = [(3, eta_t)]"
    unfolding in_lang_Cat lang_re_eta in_lang_spaces in_lang_gap in_lang_lits by auto
  have "t = num @ ''%'' @ mid @ ''at'' @ ws @ rate @ mid2 @ ''ETA'' @ ws2 @ eta_t
        \<and> pct_text num \<and> list_all not_newline mid \<and> spaces ws \<and> rate_text rate
        \<and> list_all not_newline mid2 \<and> spaces ws2 \<and> eta_text eta_t
        \<and> d = [(3, eta_t), (2, rate), (1, num)]"
    using c(1,2) r e by simp
  then show "\<exists>num mid ws rate mid2 ws2 eta_t.
        t = num @ ''%'' @ mid @ ''at'' @ ws @ rate @ mid2 @ ''ETA'' @ ws2 @ eta_t
        \<and> pct_text num \<and> list_all not_newline mid \<and> spaces ws \<and> rate_text rate
        \<and> list_all not_newline mid2 \<and> spaces ws2 \<and> eta_text eta_t
        \<and> d = [(3, eta_t), (2, rate), (1, num)]"
    by blast
next
  assume "\<exists>num mid ws rate mid2 ws2 eta_t.
        t = num @ ''%'' @ mid @ ''at'' @ ws @ rate @ mid2 @ ''ETA'' @ ws2 @ eta_t
        \<and> pct_text num \<and> list_all not_newline mid \<and> spaces ws \<and> rate_text rate
        \<and> list_all not_newline mid2 \<and> spaces ws2 \<and> eta_text eta_t
        \<and> d = [(3, eta_t), (2, rate), (1, num)]"
  then obtain num mid ws rate mid2 ws2 eta_t where
    *: "t = num @ ''%'' @ mid @ ''at'' @ ws @ rate @ mid2 @ ''ETA'' @ ws2 @ eta_t"
      "pct_text num" "list_all not_newline mid" "spaces ws" "rate_text rate"
      "list_all not_newline mid2" "spaces ws2" "eta_text eta_t"
      "d = [(3, eta_t), (2, rate), (1, num)]"
    by blast
  have 1: "(num @ ''%'' @ mid @ ''at'' @ ws @ rate, [(2, rate), (1, num)]) \<in> lang re_reduced"
    unfolding lang_re_reduced using *(2-5) by blast
  have 2: "(mid2, []) \<in> lang (Lazy not_newline 0 None)"
    using *(6) by (simp only: in_lang_gap)
  have 3: "(''ETA'', []) \<in> lang (lits ''ETA'')"
    by (simp only: in_lang_lits)
  have 4: "(ws2, []) \<in> lang (Greedy is_space 1 None)"
    using *(7) by (simp only: in_lang_spaces)
  have 5: "(eta_t, [(3, eta_t)]) \<in> lang re_eta"
    using *(8) by (simp only: lang_re_eta)
  have "((num @ ''%'' @ mid @ ''at'' @ ws @ rate) @ mid2 @ ''ETA'' @ ws2 @ eta_t,
         ((([(3, eta_t)] @ []) @ []) @ []) @ [(2, rate), (1, num)])
      \<in> lang (Cat re_reduced (Cat (Lazy not_newline 0 None)
         (Cat (lits ''ETA'') (Cat (Greedy is_space 1 None) re_eta))))"
    by (intro lang_CatI 1 2 3 4 5)
  then show "(t, d) \<in> lang re_full"
    unfolding re_full_def using *(1,9) by simp
qed

section \<open>The progress line parser\<close>

lemma full_match_lang:
  "full_match line num rate eta_t \<longleftrightarrow>
     (\<exists>pre t post. line = pre @ t @ post \<and> (t, [(3, eta_t), (2, rate), (1, num)]) \<in> lang re_full)"
proof
  assume "full_match line num rate eta_t"
  then obtain pre mid ws mid2 ws2 post where
    *: "line = pre @ num @ ''%'' @ mid @ ''at'' @ ws @ rate @ mid2 @ ''ETA'' @ ws2 @ eta_t @ post"
      "pct_text num" "list_all not_newline mid" "spaces ws" "rate_text rate"
      "list_all not_newline mid2" "spaces ws2" "eta_text eta_t"
    unfolding full_match_def by blast
  let ?t = "num @ ''%'' @ mid @ ''at'' @ ws @ rate @ mid2 @ ''ETA'' @ ws2 @ eta_t"
  have "(?t, [(3, eta_t), (2, rate), (1, num)]) \<in> lang re_full"
    unfolding lang_re_full using *(2-8) by blast
  moreover have "line = pre @ ?t @ post"
    using *(1) by simp
  ultimately show "\<exists>pre t post. line = pre @ t @ post
      \<and> (t, [(3, eta_t), (2, rate), (1, num)]) \<in> lang re_full"
    by blast
next
  assume "\<exists>pre t post. line = pre @ t @ post
      \<and> (t, [(3, eta_t), (2, rate), (1, num)]) \<in> lang re_full"
  then obtain pre t post where l: "line = pre @ t @ post"
    and t: "(t, [(3, eta_t), (2, rate), (1, num)]) \<in> lang re_full"
    by blast
  from t obtain mid ws mid2 ws2 where
    *: "t = num @ ''%'' @ mid @ ''at'' @ ws @ rate @ mid2 @ ''ETA'' @ ws2 @ eta_t"
      "pct_text num" "list_all not_newline mid" "spaces ws" "rate_text rate"
      "list_all not_newline mid2" "spaces ws2" "eta_text eta_t"
    unfolding lang_re_full by auto
  have "line = pre @ num @ ''%'' @ mid @ ''at'' @ ws @ rate @ mid2 @ ''ETA'' @ ws2 @ eta_t @ post"
    using l *(1) by simp
  with *(2-8) show "full_match line num rate eta_t"
    unfolding full_match_def by blast
qed

lemma reduced_match_lang:
  "reduced_match line num rate \<longleftrightarrow>
     (\<exists>pre t post. line = pre @ t @ post \<and> (t, [(2, rate), (1, num)]) \<in> lang re_reduced)"
proof
  assume "reduced_match line num rate"
  then obtain pre mid ws post where
    *: "line = pre @ num @ ''%'' @ mid @ ''at'' @ ws @ rate @ post"
      "pct_text num" "list_all not_newline mid" "spaces ws" "rate_text rate"
    unfolding reduced_match_def by blast
  let ?t = "num @ ''%'' @ mid @ ''at'' @ ws @ rate"
  have "(?t, [(2, rate), (1, num)]) \<in> lang re_reduced"
    unfolding lang_re_reduced using *(2-5) by blast
  moreover have "line = pre @ ?t @ post"
    using *(1) by simp
  ultimately show "\<exists>pre t post. line = pre @ t @ post
      \<and> (t, [(2, rate), (1, num)]) \<in> lang re_reduced"
    by blast
next
  assume "\<exists>pre t post. line = pre @ t @ post \<and> (t, [(2, rate), (1, num)]) \<in> lang re_reduced"
  then obtain pre t post where l: "line = pre @ t @ post"
    and t: "(t, [(2, rate), (1, num)]) \<in> lang re_reduced"
    by blast
  from t obtain mid ws where
    *: "t = num @ ''%'' @ mid @ ''at'' @ ws @ rate"
      "pct_text num" "list_all not_newline mid" "spaces ws" "rate_text rate"
    unfolding lang_re_reduced by auto
  have "line = pre @ num @ ''%'' @ mid @ ''at'' @ ws @ rate @ post"
    using l *(1) by simp
  with *(2-5) show "reduced_match line num rate"
    unfolding reduced_match_def by blast
qed

lemma search_re_full_None:
  "search re_full line = None \<longleftrightarrow> \<not> (\<exists>num rate eta_t. full_match line num rate eta_t)"
proof
  assume n: "search re_full line = None"
  show "\<not> (\<exists>num rate eta_t. full_match line num rate eta_t)"
  proof
    assume "\<exists>num rate eta_t. full_match line num rate eta_t"
    then obtain pre t post d where "line = pre @ t @ post" "(t, d) \<in> lang re_full"
      unfolding full_match_lang by blast
    with n show False
      unfolding search_None_iff by blast
  qed
next
  assume n: "\<not> (\<exists>num rate eta_t. full_match line num rate eta_t)"
  show "search re_full line = None"
    unfolding search_None_iff
  proof (intro allI impI notI)
    fix pre t post d
    assume l: "line = pre @ t @ post" and t: "(t, d) \<in> lang re_full"
    from t obtain num rate eta_t where "d = [(3, eta_t), (2, rate), (1, num)]"
      unfolding lang_re_full by blast
    with l t have "full_match line num rate eta_t"
      unfolding full_match_lang by blast
    with n show False by blast
  qed
qed

lemma search_re_reduced_None:
  "search re_reduced line = None \<longleftrightarrow> \<not> (\<exists>num rate. reduced_match line num rate)"
proof
  assume n: "search re_reduced line = None"
  show "\<not> (\<exists>num rate. reduced_match line num rate)"
  proof
    assume "\<exists>num rate. reduced_match line num rate"
    then obtain pre t post d where "line = pre @ t @ post" "(t, d) \<in> lang re_reduced"
      unfolding reduced_match_lang by blast
    with n show False
      unfolding search_None_iff by blast
  qed
next
  assume n: "\<not> (\<exists>num rate. reduced_match line num rate)"
  show "search re_reduced line = None"
    unfolding search_None_iff
  proof (intro allI impI notI)
    fix pre t post d
    assume l: "line = pre @ t @ post" and t: "(t, d) \<in> lang re_reduced"
    from t obtain num rate where "d = [(2, rate), (1, num)]"
      unfolding lang_re_reduced by blast
    with l t have "reduced_match line num rate"
      unfolding reduced_match_lang by blast
    with n show False by blast
  qed
qed

lemma search_re_full_Some:
  assumes "search re_full line = Some m"
  shows "\<exists>num rate eta_t. full_match line num rate eta_t \<and> m = [(3, eta_t), (2, rate), (1, num)]"
proof -
  from search_Some_lang [OF assms] obtain pre t post where
    l: "line = pre @ t @ post" and t: "(t, m) \<in> lang re_full"
    by blast
  from t obtain num rate eta_t where m: "m = [(3, eta_t), (2, rate), (1, num)]"
    unfolding lang_re_full by blast
  with l t have "full_match line num rate eta_t"
    unfolding full_match_lang by blast
  with m show ?thesis by blast
qed

lemma search_re_reduced_Some:
  assumes "search re_reduced line = Some m"
  shows "\<exists>num rate. reduced_match line num rate \<and> m = [(2, rate), (1, num)]"
proof -
  from search_Some_lang [OF assms] obtain pre t post where
    l: "line = pre @ t @ post" and t: "(t, m) \<in> lang re_reduced"
    by blast
  from t obtain num rate where m: "m = [(2, rate), (1, num)]"
    unfolding lang_re_reduced by blast
  with l t have "reduced_match line num rate"
    unfolding reduced_match_lang by blast
  with m show ?thesis by blast
qed

text \<open>
  Claim C6. When the line matches the full pattern, the parser returns the percentage,
  the rate and the remaining time of a match of the full pattern in that line: the
  number the percentage text denotes, and the rate and time texts as they stand. When
  the line matches only the reduced pattern, it returns the percentage and the rate of a
  match of the reduced pattern, and no remaining time.
\<close>

theorem parse_progress_line_matches:
  "((\<exists>num rate eta_t. full_match line num rate eta_t) \<longrightarrow>
      (\<exists>num rate eta_t. full_match line num rate eta_t
         \<and> parse_progress_line line = Some (py_float num, rate, Some eta_t)))
   \<and> (\<not> (\<exists>num rate eta_t. full_match line num rate eta_t)
        \<and> (\<exists>num rate. reduced_match line num rate) \<longrightarrow>
      (\<exists>num rate. reduced_match line num rate
         \<and> parse_progress_line line = Some (py_float num, rate, None)))"
proof (intro conjI impI)
  assume "\<exists>num rate eta_t. full_match line num rate eta_t"
  then have "search re_full line \<noteq> None"
    unfolding search_re_full_None by blast
  then obtain m where m: "search re_full line = Some m"
    by blast
  from search_re_full_Some [OF m] obtain num rate eta_t where
    f: "full_match line num rate eta_t" and c: "m = [(3, eta_t), (2, rate), (1, num)]"
    by blast
  have "parse_progress_line line = Some (py_float num, rate, Some eta_t)"
    unfolding parse_progress_line_def m c by (simp add: group_def)
  with f show "\<exists>num rate eta_t. full_match line num rate eta_t
         \<and> parse_progress_line line = Some (py_float num, rate, Some eta_t)"
    by blast
next
  assume h: "\<not> (\<exists>num rate eta_t. full_match line num rate eta_t)
        \<and> (\<exists>num rate. reduced_match line num rate)"
  then have n: "search re_full line = None"
    unfolding search_re_full_None by blast
  from h have "search re_reduced line \<noteq> None"
    unfolding search_re_reduced_None by blast
  then obtain m where m: "search re_reduced line = Some m"
    by blast
  from search_re_reduced_Some [OF m] obtain num rate where
    f: "reduced_match line num rate" and c: "m = [(2, rate), (1, num)]"
    by blast
  have "parse_progress_line line = Some (py_float num, rate, None)"
    unfolding parse_progress_line_def n m c by (simp add: group_def)
  with f show "\<exists>num rate. reduced_match line num rate
         \<and> parse_progress_line line = Some (py_float num, rate, None)"
    by blast
qed

text \<open>The decimal value of a text, from the values of its parts.\<close>

lemma foldl_dec_val:
  "foldl (\<lambda>a c. 10 * a + digit_val c) acc ds
     = acc * 10 ^ length ds + foldl (\<lambda>a c. 10 * a + digit_val c) 0 ds"
proof (induction ds arbitrary: acc)
  case Nil
  show ?case by simp
next
  case (Cons c cs)
  have a: "foldl (\<lambda>a c. 10 * a + digit_val c) acc (c # cs)
      = (10 * acc + digit_val c) * 10 ^ length cs + foldl (\<lambda>a c. 10 * a + digit_val c) 0 cs"
    using Cons.IH [of "10 * acc + digit_val c"] by simp
  have b: "foldl (\<lambda>a c. 10 * a + digit_val c) 0 (c # cs)
      = digit_val c * 10 ^ length cs + foldl (\<lambda>a c. 10 * a + digit_val c) 0 cs"
    using Cons.IH [of "digit_val c"] by simp
  show ?case
    unfolding a b by (simp add: algebra_simps)
qed

lemma dec_val_append: "dec_val (a @ b) = dec_val a * 10 ^ length b + dec_val b"
  unfolding dec_val_def foldl_append
  by (rule foldl_dec_val)

lemma dot_not_digit: "\<not> is_digit CHR ''.''"
  by (simp add: is_digit_def)

lemma digits_no_dot:
  assumes "list_all is_digit t"
  shows "CHR ''.'' \<notin> set t"
proof
  assume "CHR ''.'' \<in> set t"
  with assms have "is_digit CHR ''.''"
    by (simp only: list_all_iff)
  with dot_not_digit show False by blast
qed

lemma dec_value_whole:
  assumes "list_all is_digit t"
  shows "dec_value t = of_int (dec_val t)"
proof -
  have "\<forall>c\<in>set t. c \<noteq> CHR ''.''"
    using digits_no_dot [OF assms] by auto
  then have tw: "takeWhile (\<lambda>c. c \<noteq> CHR ''.'') t = t"
    by (simp only: takeWhile_eq_all_conv)
  show ?thesis
    unfolding dec_value_def Let_def tw by simp
qed

lemma dec_value_fraction:
  assumes "list_all is_digit ip"
  shows "dec_value (ip @ ''.'' @ fp) = of_int (dec_val ip) + of_int (dec_val fp) / 10 ^ length fp"
proof -
  have tw: "takeWhile (\<lambda>c. c \<noteq> CHR ''.'') (ip @ ''.'' @ fp) = ip"
    using digits_no_dot [OF assms] by (induction ip) auto
  have dr: "drop (Suc (length ip)) (ip @ ''.'' @ fp) = fp"
    by simp
  show ?thesis
    unfolding dec_value_def Let_def tw dr
    by (simp add: dec_val_append field_simps)
qed

text \<open>
  Claim C7. For a line that matches neither pattern the parser returns nothing; the
  loop body leaves percentage, rate and remaining time of the job as they were, and
  sets the status text to the line cut to 160 characters.
\<close>

theorem process_line_no_match:
  assumes "\<not> (\<exists>num rate eta_t. full_match (strip raw) num rate eta_t)"
    and "\<not> (\<exists>num rate. reduced_match (strip raw) num rate)"
  shows "parse_progress_line (strip raw) = None
       \<and> pct (status (process_line j raw)) = pct (status j)
       \<and> speed (status (process_line j raw)) = speed (status j)
       \<and> eta (status (process_line j raw)) = eta (status j)
       \<and> status_text (status (process_line j raw)) = take 160 (strip raw)
       \<and> length (status_text (status (process_line j raw))) \<le> 160"
proof -
  have "search re_full (strip raw) = None"
    unfolding search_re_full_None by (rule assms(1))
  moreover have "search re_reduced (strip raw) = None"
    unfolding search_re_reduced_None by (rule assms(2))
  ultimately have p: "parse_progress_line (strip raw) = None"
    unfolding parse_progress_line_def by simp
  have st: "status (process_line j raw) = (status j)\<lparr>status_text := take 160 (strip raw)\<rparr>"
    unfolding process_line_def Let_def p by (simp split: option.split)
  have "length (take 160 (strip raw)) \<le> 160"
    by (simp only: length_take min.cobounded2)
  then show ?thesis
    unfolding st by (simp add: p)
qed

theorem process_line_no_match_witness:
  "parse_progress_line (strip ''ERROR: unable to download video data  '') = None
   \<and> pct (status (process_line initial_job ''ERROR: unable to download video data  ''))
       = pct (status initial_job)
   \<and> speed (status (process_line initial_job ''ERROR: unable to download video data  ''))
       = speed (status initial_job)
   \<and> eta (status (process_line initial_job ''ERROR: unable to download video data  ''))
       = eta (status initial_job)
   \<and> status_text (status (process_line initial_job ''ERROR: unable to download video data  ''))
       = take 160 (strip ''ERROR: unable to download video data  '')
   \<and> length (status_text (status (process_line initial_job ''ERROR: unable to download video data  '')))
       \<le> 160
   \<and> take 160 (strip ''ERROR: unable to download video data  '')
       = ''ERROR: unable to download video data''"
proof -
  let ?raw = "''ERROR: unable to download video data  ''"
  have s1: "search re_full (strip ?raw) = None"
    by code_simp
  have n1: "\<not> (\<exists>num rate eta_t. full_match (strip ?raw) num rate eta_t)"
    by (rule iffD1 [OF search_re_full_None s1])
  have s2: "search re_reduced (strip ?raw) = None"
    by code_simp
  have n2: "\<not> (\<exists>num rate. reduced_match (strip ?raw) num rate)"
    by (rule iffD1 [OF search_re_reduced_None s2])
  have t: "take 160 (strip ?raw) = ''ERROR: unable to download video data''"
    by code_simp
  note main = process_line_no_match [OF n1 n2, of initial_job]
  show ?thesis
    by (rule conjI [OF conjunct1 [OF main]], rule conjI [OF conjunct1 [OF conjunct2 [OF main]]])
      (intro conjI main [THEN conjunct2, THEN conjunct2, THEN conjunct1]
        main [THEN conjunct2, THEN conjunct2, THEN conjunct2, THEN conjunct1]
        main [THEN conjunct2, THEN conjunct2, THEN conjunct2, THEN conjunct2, THEN conjunct1]
        main [THEN conjunct2, THEN conjunct2, THEN conjunct2, THEN conjunct2, THEN conjunct2] t)
qed

section \<open>Destination lines\<close>

lemma contains_iff: "contains tok s \<longleftrightarrow> (\<exists>a b. s = a @ tok @ b)"
proof (induction s)
  case Nil
  show ?case by auto
next
  case (Cons c cs)
  show ?case
  proof
    assume "contains tok (c # cs)"
    then consider "take (length tok) (c # cs) = tok" | "contains tok cs"
      by auto
    then show "\<exists>a b. c # cs = a @ tok @ b"
    proof cases
      case 1
      have "c # cs = [] @ take (length tok) (c # cs) @ drop (length tok) (c # cs)"
        by simp
      then show ?thesis
        unfolding 1 by blast
    next
      case 2
      then obtain a b where "cs = a @ tok @ b"
        using Cons.IH by blast
      then have "c # cs = (c # a) @ tok @ b" by simp
      then show ?thesis by blast
    qed
  next
    assume "\<exists>a b. c # cs = a @ tok @ b"
    then obtain a b where e: "c # cs = a @ tok @ b" by blast
    show "contains tok (c # cs)"
    proof (cases a)
      case Nil
      with e have "take (length tok) (c # cs) = tok" by simp
      then show ?thesis by simp
    next
      case (Cons x xs)
      with e have "cs = xs @ tok @ b" by simp
      then have "contains tok cs"
        using Cons.IH by blast
      then show ?thesis by simp
    qed
  qed
qed

lemma run_lits:
  "run (lits w) (s, c) = (if prefix w s then [(drop (length w) s, c)] else [])"
proof (induction w arbitrary: s)
  case Nil
  show ?case by simp
next
  case (Cons x xs)
  show ?case
  proof (cases s)
    case Nil
    then show ?thesis by simp
  next
    case (Cons y ys)
    then show ?thesis
      by (simp add: Cons.IH)
  qed
qed

lemma search_hd:
  assumes "run r (s, []) = st # others"
  shows "search r s = Some (snd st)"
  using assms by (cases s) simp_all

lemma search_skip:
  assumes "\<And>x y. pre = y @ x \<Longrightarrow> x \<noteq> [] \<Longrightarrow> run r (x @ rest, []) = []"
  shows "search r (pre @ rest) = search r rest"
  using assms
proof (induction pre)
  case Nil
  show ?case by simp
next
  case (Cons p ps)
  have "run r ((p # ps) @ rest, []) = []"
    by (rule Cons.prems [of "[]" "p # ps"]) simp_all
  then have "search r ((p # ps) @ rest) = search r (ps @ rest)"
    by simp
  also have "\<dots> = search r rest"
  proof (rule Cons.IH)
    fix x y
    assume "ps = y @ x" and x: "x \<noteq> []"
    then have "p # ps = (p # y) @ x" by simp
    then show "run r (x @ rest, []) = []"
      using x by (rule Cons.prems)
  qed
  finally show ?case .
qed

text \<open>An occurrence of the token that starts earlier would lie in what precedes its last character.\<close>

lemma earlier_occurrence:
  assumes "prefix tok (x @ tok @ rest)" and "x \<noteq> []" and "tok \<noteq> []"
  shows "contains tok (y @ x @ butlast tok)"
proof -
  have "x @ tok @ rest = (x @ butlast tok) @ last tok # rest"
    using assms(3) by simp
  then have "prefix (x @ butlast tok) (x @ tok @ rest)"
    by (metis prefixI)
  moreover have "length tok \<le> length (x @ butlast tok)"
    using assms(2,3) by (cases x) simp_all
  ultimately have "prefix tok (x @ butlast tok)"
    using assms(1) by (rule prefix_length_prefix [rotated])
  then obtain b where "x @ butlast tok = tok @ b"
    by (auto simp: prefix_def)
  then have "y @ x @ butlast tok = y @ tok @ b" by simp
  then show ?thesis
    unfolding contains_iff by blast
qed

lemma run_re_destination_skip:
  assumes "\<not> contains ''Destination:'' (pre @ ''Destination'')" and "pre = y @ x" and "x \<noteq> []"
  shows "run re_destination (x @ ''Destination:'' @ rest, []) = []"
proof -
  have "\<not> prefix ''Destination:'' (x @ ''Destination:'' @ rest)"
  proof
    assume "prefix ''Destination:'' (x @ ''Destination:'' @ rest)"
    then have "contains ''Destination:'' (y @ x @ butlast ''Destination:'')"
      using assms(3) by (rule earlier_occurrence) simp
    with assms(1,2) show False by simp
  qed
  then have "run (lits ''Destination:'') (x @ ''Destination:'' @ rest, []) = []"
    by (simp only: run_lits if_False)
  then show ?thesis
    unfolding re_destination_def run.simps(5) by simp
qed

lemma rev_upt_from_1:
  assumes "1 \<le> n"
  shows "rev [1 ..< Suc n] = n # rev [1 ..< n]"
  using assms by simp

lemma run_rest_of_line:
  assumes "path \<noteq> []" and "list_all not_newline path"
  shows "\<exists>others. run (Grp 1 (Greedy not_newline 1 None)) (path, c) = ([], (1, path) # c) # others"
proof -
  have tw: "takeWhile not_newline path = path"
    using assms(2) by (simp add: takeWhile_eq_all_conv list_all_iff)
  have n: "1 \<le> length path"
    using assms(1) by (cases path) simp_all
  have "rev (rep_counts not_newline 1 None path) = length path # rev [1 ..< length path]"
    unfolding rep_counts_def Let_def tw option.case using rev_upt_from_1 [OF n] .
  then show ?thesis
    by simp
qed

lemma run_re_destination_here:
  assumes "is_space w" and "path \<noteq> []" and "list_all not_newline path"
  shows "\<exists>others. run re_destination (''Destination:'' @ w # path, []) = ([], [(1, path)]) # others"
proof -
  have 1: "run (lits ''Destination:'') (''Destination:'' @ w # path, []) = [(w # path, [])]"
    unfolding run_lits by simp
  have 2: "run (Cls is_space) (w # path, []) = [(path, [])]"
    using assms(1) by simp
  from run_rest_of_line [OF assms(2,3), of "[]"] obtain others where
    3: "run (Grp 1 (Greedy not_newline 1 None)) (path, []) = ([], [(1, path)]) # others"
    by blast
  have "run re_destination (''Destination:'' @ w # path, [])
      = concat (map (run (Cat (Cls is_space) (Grp 1 (Greedy not_newline 1 None))))
          (run (lits ''Destination:'') (''Destination:'' @ w # path, [])))"
    unfolding re_destination_def by (simp only: run.simps)
  also have "\<dots> = run (Cat (Cls is_space) (Grp 1 (Greedy not_newline 1 None))) (w # path, [])"
    by (simp only: 1 list.map concat.simps append_Nil2)
  also have "\<dots> = concat (map (run (Grp 1 (Greedy not_newline 1 None)))
          (run (Cls is_space) (w # path, [])))"
    by (simp only: run.simps)
  also have "\<dots> = run (Grp 1 (Greedy not_newline 1 None)) (path, [])"
    by (simp only: 2 list.map concat.simps append_Nil2)
  also have "\<dots> = ([], [(1, path)]) # others"
    by (rule 3)
  finally show ?thesis by blast
qed

lemma search_re_destination:
  assumes "\<not> contains ''Destination:'' (pre @ ''Destination'')"
    and "is_space w" and "path \<noteq> []" and "list_all not_newline path"
  shows "search re_destination (pre @ ''Destination:'' @ w # path) = Some [(1, path)]"
proof -
  have "search re_destination (pre @ ''Destination:'' @ w # path)
      = search re_destination (''Destination:'' @ w # path)"
    by (rule search_skip) (rule run_re_destination_skip [OF assms(1)])
  also have "\<dots> = Some [(1, path)]"
  proof -
    from run_re_destination_here [OF assms(2-4)] obtain others where
      "run re_destination (''Destination:'' @ w # path, []) = ([], [(1, path)]) # others"
      by blast
    from search_hd [OF this] show ?thesis by simp
  qed
  finally show ?thesis .
qed

lemma takeWhile_no_slash:
  assumes "CHR ''/'' \<notin> set p"
  shows "takeWhile (\<lambda>c. c \<noteq> CHR ''/'') (rev p) = rev p"
  using assms by (auto simp: takeWhile_eq_all_conv)

lemma basename_plain: "CHR ''/'' \<notin> set p \<Longrightarrow> basename p = p"
  by (simp add: basename_def takeWhile_no_slash)

lemma basename_deep:
  assumes "CHR ''/'' \<notin> set name"
  shows "basename (dir @ ''/'' @ name) = name"
proof -
  have "rev (dir @ ''/'' @ name) = rev name @ CHR ''/'' # rev dir"
    by simp
  then have "takeWhile (\<lambda>c. c \<noteq> CHR ''/'') (rev (dir @ ''/'' @ name))
      = takeWhile (\<lambda>c. c \<noteq> CHR ''/'') (rev name)"
    by (simp only: takeWhile_tail simp_thms)
  then show ?thesis
    unfolding basename_def by (simp only: takeWhile_no_slash [OF assms] rev_rev_ident)
qed

text \<open>
  Claim C9. A line in which the token \<open>Destination:\<close> first stands at some place,
  followed by one white-space character and a path, sets the job's file name to the base
  name of that path: what follows the last slash, whatever the number of directories
  before it, and the path itself when it has no slash.
\<close>

theorem process_line_destination:
  assumes "strip raw = pre @ ''Destination:'' @ w # path"
    and "\<not> contains ''Destination:'' (pre @ ''Destination'')"
    and "is_space w" and "path \<noteq> []" and "list_all not_newline path"
  shows "filename (process_line j raw) = Some (basename path)
       \<and> (\<forall>dir name. path = dir @ ''/'' @ name \<and> CHR ''/'' \<notin> set name \<longrightarrow> basename path = name)
       \<and> (CHR ''/'' \<notin> set path \<longrightarrow> basename path = path)"
proof (intro conjI allI impI)
  have c: "contains ''Destination:'' (strip raw)"
    unfolding contains_iff assms(1) by blast
  have s: "search re_destination (strip raw) = Some [(1, path)]"
    unfolding assms(1) by (rule search_re_destination [OF assms(2-5)])
  show "filename (process_line j raw) = Some (basename path)"
    unfolding process_line_def Let_def s
    by (simp add: c group_def split: option.split prod.split)
next
  fix dir name
  assume "path = dir @ ''/'' @ name \<and> CHR ''/'' \<notin> set name"
  then have "path = dir @ ''/'' @ name" and "CHR ''/'' \<notin> set name"
    by blast+
  then show "basename path = name"
    using basename_deep [of name dir] by blast
next
  assume "CHR ''/'' \<notin> set path"
  then show "basename path = path"
    by (rule basename_plain)
qed

theorem process_line_destination_witness:
  "filename (process_line initial_job
      ''[download] Destination: /srv/web_downloader/My Video.mp4  '')
     = Some (basename ''/srv/web_downloader/My Video.mp4'')
   \<and> basename ''/srv/web_downloader/My Video.mp4'' = ''My Video.mp4''
   \<and> filename (process_line initial_job ''Destination: clip.m4a'') = Some ''clip.m4a''"
proof -
  let ?raw = "''[download] Destination: /srv/web_downloader/My Video.mp4  ''"
  have h1: "strip ?raw = ''[download] '' @ ''Destination:'' @ CHR '' '' # ''/srv/web_downloader/My Video.mp4''"
    by code_simp
  have h2: "\<not> contains ''Destination:'' (''[download] '' @ ''Destination'')"
    by code_simp
  have h3: "is_space CHR '' ''"
    by code_simp
  have h4: "''/srv/web_downloader/My Video.mp4'' \<noteq> []"
    by simp
  have h5: "list_all not_newline ''/srv/web_downloader/My Video.mp4''"
    by code_simp
  note t1 = process_line_destination [OF h1 h2 h3 h4 h5, of initial_job]
  have d: "''/srv/web_downloader/My Video.mp4'' = ''/srv/web_downloader'' @ ''/'' @ ''My Video.mp4''
      \<and> CHR ''/'' \<notin> set ''My Video.mp4''"
    by simp
  have b: "basename ''/srv/web_downloader/My Video.mp4'' = ''My Video.mp4''"
    using t1 [THEN conjunct2, THEN conjunct1] d by blast
  have k1: "strip ''Destination: clip.m4a'' = [] @ ''Destination:'' @ CHR '' '' # ''clip.m4a''"
    by code_simp
  have k2: "\<not> contains ''Destination:'' ([] @ ''Destination'')"
    by code_simp
  have k4: "''clip.m4a'' \<noteq> []"
    by simp
  have k5: "list_all not_newline ''clip.m4a''"
    by code_simp
  note t2 = process_line_destination [OF k1 k2 h3 k4 k5, of initial_job]
  have p: "CHR ''/'' \<notin> set ''clip.m4a''"
    by simp
  have b2: "basename ''clip.m4a'' = ''clip.m4a''"
    using t2 [THEN conjunct2, THEN conjunct2] p by blast
  have f2: "filename (process_line initial_job ''Destination: clip.m4a'') = Some ''clip.m4a''"
    using t2 [THEN conjunct1] unfolding b2 .
  show ?thesis
    by (intro conjI t1 [THEN conjunct1] b f2)
qed

end
